theory Spec2Isabelle
  imports Main "HOL-Library.Word" "HOL-Library.Sublist" "HOL-Library.Monad_Syntax"
begin

section \<open>JavaScript values\<close>

text \<open>
  A JavaScript string is a sequence of 16-bit code units. ASCII literals of the source are
  written \<open>u ''...''\<close>; other literals (emoji, Khmer text) are given by their code units.
\<close>

type_synonym jsstring = "16 word list"

definition u :: "string \<Rightarrow> jsstring" where
  "u s = map (\<lambda>c. of_nat (of_char c)) s"

text \<open>
  The values that \<open>JSON.parse\<close> produces, and \<open>undefined\<close>. Numbers are the integers
  that print in plain decimal, those of absolute value below \<open>10\<^sup>2\<^sup>1\<close> (the code only tests a
  number for being zero and prints it); fractions, and the integers from \<open>10\<^sup>2\<^sup>1\<close> on, which
  JavaScript prints with an exponent, are outside the model. An object is the list of its
  own properties in property order, one entry for each key.
\<close>

datatype jsval =
    JUndefined
  | JNull
  | JBool bool
  | JNum int
  | JStr jsstring
  | JArr "jsval list"
  | JObj "(jsstring \<times> jsval) list"

datatype js_error = TypeError | NetworkError | AbortError | HttpError nat | SyntaxError

text \<open>Sequencing of computations that may throw.\<close>

definition andThen :: "js_error + 'a \<Rightarrow> ('a \<Rightarrow> js_error + 'b) \<Rightarrow> js_error + 'b" where
  "andThen m f = (case m of Inl e \<Rightarrow> Inl e | Inr v \<Rightarrow> f v)"

text \<open>\<open>ToBoolean\<close>.\<close>

fun truthy :: "jsval \<Rightarrow> bool" where
  "truthy JUndefined = False"
| "truthy JNull = False"
| "truthy (JBool b) = b"
| "truthy (JNum n) = (n \<noteq> 0)"
| "truthy (JStr s) = (s \<noteq> [])"
| "truthy (JArr xs) = True"
| "truthy (JObj fs) = True"

text \<open>The operators \<open>a || b\<close> and \<open>a && b\<close>: the right operand is used only when the left
  one does not decide, and an exception of the left operand wins.\<close>

definition orElse :: "js_error + jsval \<Rightarrow> js_error + jsval \<Rightarrow> js_error + jsval" where
  "orElse a b = (case a of Inl e \<Rightarrow> Inl e | Inr v \<Rightarrow> if truthy v then Inr v else b)"

definition andAlso :: "js_error + jsval \<Rightarrow> js_error + jsval \<Rightarrow> js_error + jsval" where
  "andAlso a b = (case a of Inl e \<Rightarrow> Inl e | Inr v \<Rightarrow> if truthy v then b else Inr v)"

text \<open>Decimal digits of a natural number, as \<open>ToString\<close> prints a non-negative integer
  below \<open>10\<^sup>2\<^sup>1\<close>; \<open>showInt\<close> is \<open>ToString\<close> on the integers of the model.\<close>

function showNat :: "nat \<Rightarrow> jsstring" where
  "showNat n = (if n < 10 then [48 + of_nat n] else showNat (n div 10) @ [48 + of_nat (n mod 10)])"
  by pat_completeness auto
termination
  by (relation "measure id") auto

declare showNat.simps [simp del]

definition showInt :: "int \<Rightarrow> jsstring" where
  "showInt i = (if i < 0 then u ''-'' @ showNat (nat (- i)) else showNat (nat i))"

text \<open>
  Reading a property \<open>v.k\<close>. On \<open>undefined\<close> and \<open>null\<close> the read throws. On any other
  value it yields the own property, or \<open>undefined\<close>: \<open>readProp\<close> is that total part. Strings
  and arrays own \<open>length\<close> and their indices. None of the fixed property names the
  program reads is inherited from a built-in prototype.
\<close>

definition own :: "(jsstring \<times> jsval) list \<Rightarrow> jsstring \<Rightarrow> jsval" where
  "own fs k = (case map_of fs k of Some v \<Rightarrow> v | None \<Rightarrow> JUndefined)"

definition indexed :: "'a list \<Rightarrow> jsstring \<Rightarrow> 'a option" where
  "indexed xs k = (case filter (\<lambda>i. showNat i = k) [0..<length xs] of
                     [] \<Rightarrow> None | i # _ \<Rightarrow> Some (xs ! i))"

fun readProp :: "jsval \<Rightarrow> jsstring \<Rightarrow> jsval" where
  "readProp (JObj fs) k = own fs k"
| "readProp (JArr xs) k =
     (if k = u ''length'' then JNum (int (length xs))
      else case indexed xs k of Some x \<Rightarrow> x | None \<Rightarrow> JUndefined)"
| "readProp (JStr s) k =
     (if k = u ''length'' then JNum (int (length s))
      else case indexed s k of Some c \<Rightarrow> JStr [c] | None \<Rightarrow> JUndefined)"
| "readProp v k = JUndefined"

definition nullish :: "jsval \<Rightarrow> bool" where
  "nullish v = (v = JUndefined \<or> v = JNull)"

definition getProp :: "jsval \<Rightarrow> jsstring \<Rightarrow> js_error + jsval" where
  "getProp v k = (if nullish v then Inl TypeError else Inr (readProp v k))"

text \<open>
  Method calls. \<open>v.toLowerCase()\<close> exists on strings only: on every other value the name
  is missing or not callable, and the call throws. The case mapping of the host is a
  parameter \<open>lower\<close> of the model.
\<close>

definition call_toLowerCase :: "(jsstring \<Rightarrow> jsstring) \<Rightarrow> jsval \<Rightarrow> js_error + jsval" where
  "call_toLowerCase lower v = (case v of JStr s \<Rightarrow> Inr (JStr (lower s)) | _ \<Rightarrow> Inl TypeError)"

text \<open>\<open>String.prototype.includes\<close>: the argument occurs as a contiguous run of code units.\<close>

definition str_includes :: "jsstring \<Rightarrow> jsstring \<Rightarrow> bool" where
  "str_includes s searchString = sublist searchString s"

text \<open>\<open>v.includes(x)\<close> with a string argument: strings and arrays both have the method
  (an array asks for an element equal to \<open>x\<close>).\<close>

definition call_includes :: "jsval \<Rightarrow> jsstring \<Rightarrow> js_error + jsval" where
  "call_includes v x =
     (case v of
        JStr s \<Rightarrow> Inr (JBool (str_includes s x))
      | JArr xs \<Rightarrow> Inr (JBool (JStr x \<in> set xs))
      | _ \<Rightarrow> Inl TypeError)"

text \<open>\<open>Array.prototype.some\<close> and \<open>Array.prototype.filter\<close> with a callback that may throw.\<close>

fun array_some :: "('a \<Rightarrow> js_error + jsval) \<Rightarrow> 'a list \<Rightarrow> js_error + jsval" where
  "array_some f [] = Inr (JBool False)"
| "array_some f (x # xs) =
     (case f x of
        Inl e \<Rightarrow> Inl e
      | Inr v \<Rightarrow> if truthy v then Inr (JBool True) else array_some f xs)"

definition call_some :: "(jsval \<Rightarrow> js_error + jsval) \<Rightarrow> jsval \<Rightarrow> js_error + jsval" where
  "call_some f v = (case v of JArr xs \<Rightarrow> array_some f xs | _ \<Rightarrow> Inl TypeError)"

fun array_filter :: "('a \<Rightarrow> js_error + jsval) \<Rightarrow> 'a list \<Rightarrow> js_error + 'a list" where
  "array_filter f [] = Inr []"
| "array_filter f (x # xs) =
     (case f x of
        Inl e \<Rightarrow> Inl e
      | Inr v \<Rightarrow>
          (case array_filter f xs of
             Inl e \<Rightarrow> Inl e
           | Inr ys \<Rightarrow> Inr (if truthy v then x # ys else ys)))"

section \<open>Application state\<close>

text \<open>
  The element references of \<open>elements\<close>, each with the part of the element the program
  writes; \<open>None\<close> is a missing element (\<open>getElementById\<close> returned \<open>null\<close>).
\<close>

record button =
  className :: jsstring
  dataCategory :: jsstring
  buttonHTML :: jsstring
  ariaPressed :: jsstring

datatype listener = SearchInput | FilterClick | ModalClick | Keydown | Resize

record elements =
  loading :: "jsstring option"
  error :: "jsstring option"
  mainContent :: "(jsstring \<times> jsstring list) option"
  searchInput :: bool
  filterButtons :: "button list option"
  wordGrid :: "jsstring option"
  resultsCount :: "jsstring option"
  statsContainer :: "jsstring option"
  contributeModal :: bool

record app =
  lexiconData :: jsval
  categoriesData :: jsval
  websiteInfo :: jsval
  currentFilter :: jsstring
  currentSearch :: jsstring
  elements :: elements
  listeners :: "listener list"

text \<open>The state before loading (the initial values of the global variables).\<close>

definition initialApp :: "elements \<Rightarrow> app" where
  "initialApp page =
     \<lparr> lexiconData = JArr [], categoriesData = JObj [], websiteInfo = JObj [],
       currentFilter = u ''all'', currentSearch = [], elements = page, listeners = [] \<rparr>"

section \<open>Filtering\<close>

definition searchMatches :: "(jsstring \<Rightarrow> jsstring) \<Rightarrow> jsval \<Rightarrow> jsstring \<Rightarrow> js_error + jsval" where
  "searchMatches lower word searchTerm =
     (let searchLower = lower searchTerm in
      orElse (andThen (getProp word (u ''english'')) (\<lambda>english.
              andThen (call_toLowerCase lower english) (\<lambda>l. call_includes l searchLower)))
     (orElse (andThen (getProp word (u ''khmer'')) (\<lambda>khmer. call_includes khmer searchTerm))
     (orElse (andAlso (getProp word (u ''description''))
                (andThen (getProp word (u ''description'')) (\<lambda>description.
                 andThen (call_toLowerCase lower description) (\<lambda>l. call_includes l searchLower))))
     (orElse (andAlso (getProp word (u ''tags''))
                (andThen (getProp word (u ''tags''))
                   (call_some (\<lambda>tag. andThen (call_toLowerCase lower tag)
                                        (\<lambda>l. call_includes l searchLower)))))
             (andAlso (getProp word (u ''examples''))
                (andThen (getProp word (u ''examples'')) (\<lambda>examples.
                   orElse (andThen (getProp examples (u ''english'')) (\<lambda>english.
                             if nullish english then Inr JUndefined
                             else andThen (call_toLowerCase lower english)
                                    (\<lambda>l. call_includes l searchLower)))
                          (andThen (getProp examples (u ''khmer'')) (\<lambda>khmer.
                             if nullish khmer then Inr JUndefined
                             else call_includes khmer searchTerm)))))))))"

text \<open>The two constants of the callback of \<open>filterWords\<close>, and the callback.\<close>

definition matchesSearch :: "(jsstring \<Rightarrow> jsstring) \<Rightarrow> jsstring \<Rightarrow> jsval \<Rightarrow> js_error + jsval" where
  "matchesSearch lower search word =
     (if search = [] then Inr (JBool True) else searchMatches lower word search)"

definition matchesCategory :: "jsstring \<Rightarrow> jsval \<Rightarrow> js_error + jsval" where
  "matchesCategory filt word =
     (if filt = u ''all'' then Inr (JBool True)
      else andThen (getProp word (u ''category'')) (\<lambda>c. Inr (JBool (c = JStr filt))))"

definition filterCallback :: "(jsstring \<Rightarrow> jsstring) \<Rightarrow> app \<Rightarrow> jsval \<Rightarrow> js_error + jsval" where
  "filterCallback lower st word =
     andThen (matchesSearch lower (currentSearch st) word) (\<lambda>ms.
     andThen (matchesCategory (currentFilter st) word) (\<lambda>mc.
       Inr (if truthy ms then mc else ms)))"

definition filterWords :: "(jsstring \<Rightarrow> jsstring) \<Rightarrow> app \<Rightarrow> js_error + jsval list" where
  "filterWords lower st =
     (case lexiconData st of
        JArr ws \<Rightarrow> array_filter (filterCallback lower st) ws
      | _ \<Rightarrow> Inl TypeError)"

section \<open>Filtering, on the heap\<close>

text \<open>
  The same two functions once more, now with the objects where JavaScript has them: on a
  heap. A value is a primitive or a reference to an array or an object of the heap, and
  the global variables hold such values. Every operation takes the memory and returns
  it, so that an assignment to an element, to a property or to a variable could be
  written down; the translation below shows that \<open>filterWords\<close> and \<open>searchMatches\<close>
  contain none, and that the one effect is the array that \<open>filter\<close> creates.
\<close>

datatype hval = HUndefined | HNull | HBool bool | HNum int | HStr jsstring | HRef nat

datatype hobj = HArray "hval list" | HObject "(jsstring \<times> hval) list"

record memory =
  heap :: "hobj list"
  lexiconDataVar :: hval
  categoriesDataVar :: hval
  currentFilterVar :: jsstring
  currentSearchVar :: jsstring

type_synonym 'a run = "memory \<Rightarrow> (js_error + 'a) \<times> memory"

definition result :: "'a \<Rightarrow> 'a run" where
  "result v m = (Inr v, m)"

definition readVar :: "(memory \<Rightarrow> 'a) \<Rightarrow> 'a run" where
  "readVar x m = (Inr (x m), m)"

definition andThenH :: "'a run \<Rightarrow> ('a \<Rightarrow> 'b run) \<Rightarrow> 'b run" where
  "andThenH f g m = (case f m of (Inl e, m') \<Rightarrow> (Inl e, m') | (Inr v, m') \<Rightarrow> g v m')"

fun truthyH :: "hval \<Rightarrow> bool" where
  "truthyH HUndefined = False"
| "truthyH HNull = False"
| "truthyH (HBool b) = b"
| "truthyH (HNum n) = (n \<noteq> 0)"
| "truthyH (HStr s) = (s \<noteq> [])"
| "truthyH (HRef a) = True"

definition orElseH :: "hval run \<Rightarrow> hval run \<Rightarrow> hval run" where
  "orElseH a b m =
     (case a m of (Inl e, m') \<Rightarrow> (Inl e, m') | (Inr v, m') \<Rightarrow> if truthyH v then (Inr v, m') else b m')"

definition andAlsoH :: "hval run \<Rightarrow> hval run \<Rightarrow> hval run" where
  "andAlsoH a b m =
     (case a m of (Inl e, m') \<Rightarrow> (Inl e, m') | (Inr v, m') \<Rightarrow> if truthyH v then b m' else (Inr v, m'))"

text \<open>The object behind a reference. A reference to no object does not occur in a
  program; the operations below throw on one.\<close>

definition deref :: "memory \<Rightarrow> nat \<Rightarrow> hobj option" where
  "deref m a = (if a < length (heap m) then Some (heap m ! a) else None)"

definition ownH :: "(jsstring \<times> hval) list \<Rightarrow> jsstring \<Rightarrow> hval" where
  "ownH fs k = (case map_of fs k of Some v \<Rightarrow> v | None \<Rightarrow> HUndefined)"

definition nullishH :: "hval \<Rightarrow> bool" where
  "nullishH v = (v = HUndefined \<or> v = HNull)"

definition getPropH :: "hval \<Rightarrow> jsstring \<Rightarrow> hval run" where
  "getPropH v k m =
     (case v of
        HUndefined \<Rightarrow> (Inl TypeError, m)
      | HNull \<Rightarrow> (Inl TypeError, m)
      | HStr s \<Rightarrow>
          (Inr (if k = u ''length'' then HNum (int (length s))
                else case indexed s k of Some c \<Rightarrow> HStr [c] | None \<Rightarrow> HUndefined), m)
      | HRef a \<Rightarrow>
          (case deref m a of
             Some (HArray xs) \<Rightarrow>
               (Inr (if k = u ''length'' then HNum (int (length xs))
                     else case indexed xs k of Some x \<Rightarrow> x | None \<Rightarrow> HUndefined), m)
           | Some (HObject fs) \<Rightarrow> (Inr (ownH fs k), m)
           | None \<Rightarrow> (Inl TypeError, m))
      | _ \<Rightarrow> (Inr HUndefined, m))"

definition call_toLowerCaseH :: "(jsstring \<Rightarrow> jsstring) \<Rightarrow> hval \<Rightarrow> hval run" where
  "call_toLowerCaseH lower v m =
     (case v of HStr s \<Rightarrow> (Inr (HStr (lower s)), m) | _ \<Rightarrow> (Inl TypeError, m))"

definition call_includesH :: "hval \<Rightarrow> jsstring \<Rightarrow> hval run" where
  "call_includesH v x m =
     (case v of
        HStr s \<Rightarrow> (Inr (HBool (str_includes s x)), m)
      | HRef a \<Rightarrow>
          (case deref m a of
             Some (HArray xs) \<Rightarrow> (Inr (HBool (HStr x \<in> set xs)), m)
           | _ \<Rightarrow> (Inl TypeError, m))
      | _ \<Rightarrow> (Inl TypeError, m))"

text \<open>
  \<open>Array.prototype.some\<close> and \<open>Array.prototype.filter\<close> on the array at an address: the
  length is read once, each element is read from the heap when its turn comes, and an
  index that is no longer there is skipped. The callback is run in the memory and may
  change it. \<open>filter\<close> collects the elements kept and returns a new array of them; the
  new array is reachable by nobody before \<open>filter\<close> returns, so it is put on the heap
  at the end.
\<close>

fun someFrom :: "(hval \<Rightarrow> hval run) \<Rightarrow> nat \<Rightarrow> nat \<Rightarrow> nat \<Rightarrow> hval run" where
  "someFrom f a k 0 m = (Inr (HBool False), m)"
| "someFrom f a k (Suc n) m =
     (case deref m a of
        Some (HArray xs) \<Rightarrow>
          if k < length xs then
            (case f (xs ! k) m of
               (Inl e, m') \<Rightarrow> (Inl e, m')
             | (Inr t, m') \<Rightarrow> if truthyH t then (Inr (HBool True), m') else someFrom f a (Suc k) n m')
          else someFrom f a (Suc k) n m
      | _ \<Rightarrow> someFrom f a (Suc k) n m)"

definition call_someH :: "(hval \<Rightarrow> hval run) \<Rightarrow> hval \<Rightarrow> hval run" where
  "call_someH f v m =
     (case v of
        HRef a \<Rightarrow>
          (case deref m a of
             Some (HArray xs) \<Rightarrow> someFrom f a 0 (length xs) m
           | _ \<Rightarrow> (Inl TypeError, m))
      | _ \<Rightarrow> (Inl TypeError, m))"

fun filterFrom :: "(hval \<Rightarrow> hval run) \<Rightarrow> nat \<Rightarrow> nat \<Rightarrow> nat \<Rightarrow> hval list \<Rightarrow> hval list run" where
  "filterFrom f a k 0 kept m = (Inr kept, m)"
| "filterFrom f a k (Suc n) kept m =
     (case deref m a of
        Some (HArray xs) \<Rightarrow>
          if k < length xs then
            (case f (xs ! k) m of
               (Inl e, m') \<Rightarrow> (Inl e, m')
             | (Inr t, m') \<Rightarrow>
                 filterFrom f a (Suc k) n (if truthyH t then kept @ [xs ! k] else kept) m')
          else filterFrom f a (Suc k) n kept m
      | _ \<Rightarrow> filterFrom f a (Suc k) n kept m)"

definition call_filterH :: "(hval \<Rightarrow> hval run) \<Rightarrow> hval \<Rightarrow> hval run" where
  "call_filterH f v m =
     (case v of
        HRef a \<Rightarrow>
          (case deref m a of
             Some (HArray xs) \<Rightarrow>
               (case filterFrom f a 0 (length xs) [] m of
                  (Inl e, m') \<Rightarrow> (Inl e, m')
                | (Inr kept, m') \<Rightarrow>
                    (Inr (HRef (length (heap m'))), m' \<lparr> heap := heap m' @ [HArray kept] \<rparr>))
           | _ \<Rightarrow> (Inl TypeError, m))
      | _ \<Rightarrow> (Inl TypeError, m))"

definition searchMatchesH :: "(jsstring \<Rightarrow> jsstring) \<Rightarrow> hval \<Rightarrow> jsstring \<Rightarrow> hval run" where
  "searchMatchesH lower word searchTerm =
     (let searchLower = lower searchTerm in
      orElseH (andThenH (getPropH word (u ''english'')) (\<lambda>english.
               andThenH (call_toLowerCaseH lower english) (\<lambda>l. call_includesH l searchLower)))
     (orElseH (andThenH (getPropH word (u ''khmer'')) (\<lambda>khmer. call_includesH khmer searchTerm))
     (orElseH (andAlsoH (getPropH word (u ''description''))
                 (andThenH (getPropH word (u ''description'')) (\<lambda>description.
                  andThenH (call_toLowerCaseH lower description) (\<lambda>l. call_includesH l searchLower))))
     (orElseH (andAlsoH (getPropH word (u ''tags''))
                 (andThenH (getPropH word (u ''tags''))
                    (call_someH (\<lambda>tag. andThenH (call_toLowerCaseH lower tag)
                                          (\<lambda>l. call_includesH l searchLower)))))
              (andAlsoH (getPropH word (u ''examples''))
                 (andThenH (getPropH word (u ''examples'')) (\<lambda>examples.
                    orElseH (andThenH (getPropH examples (u ''english'')) (\<lambda>english.
                               if nullishH english then result HUndefined
                               else andThenH (call_toLowerCaseH lower english)
                                      (\<lambda>l. call_includesH l searchLower)))
                            (andThenH (getPropH examples (u ''khmer'')) (\<lambda>khmer.
                               if nullishH khmer then result HUndefined
                               else call_includesH khmer searchTerm)))))))))"

definition matchesSearchH :: "(jsstring \<Rightarrow> jsstring) \<Rightarrow> hval \<Rightarrow> hval run" where
  "matchesSearchH lower word =
     andThenH (readVar currentSearchVar) (\<lambda>search.
       if search = [] then result (HBool True)
       else andThenH (readVar currentSearchVar) (searchMatchesH lower word))"

definition matchesCategoryH :: "hval \<Rightarrow> hval run" where
  "matchesCategoryH word =
     andThenH (readVar currentFilterVar) (\<lambda>filt.
       if filt = u ''all'' then result (HBool True)
       else andThenH (getPropH word (u ''category'')) (\<lambda>c.
            andThenH (readVar currentFilterVar) (\<lambda>filt. result (HBool (c = HStr filt)))))"

definition filterCallbackH :: "(jsstring \<Rightarrow> jsstring) \<Rightarrow> hval \<Rightarrow> hval run" where
  "filterCallbackH lower word =
     andThenH (matchesSearchH lower word) (\<lambda>ms.
     andThenH (matchesCategoryH word) (\<lambda>mc.
       result (if truthyH ms then mc else ms)))"

definition filterWordsH :: "(jsstring \<Rightarrow> jsstring) \<Rightarrow> hval run" where
  "filterWordsH lower = andThenH (readVar lexiconDataVar) (call_filterH (filterCallbackH lower))"

section \<open>Rendering\<close>

text \<open>
  \<open>ToString\<close>, as a template literal applies it to an interpolated value. An array prints
  its elements joined by commas, with \<open>undefined\<close> and \<open>null\<close> printed empty. An object
  prints through the inherited \<open>toString\<close>; an own property of that name (never callable
  in parsed JSON) makes the conversion throw.
\<close>

fun joinWith :: "jsstring \<Rightarrow> jsstring list \<Rightarrow> jsstring" where
  "joinWith sep [] = []"
| "joinWith sep [s] = s"
| "joinWith sep (s # t # ss) = s @ sep @ joinWith sep (t # ss)"

fun sequence :: "(js_error + 'a) list \<Rightarrow> js_error + 'a list" where
  "sequence [] = Inr []"
| "sequence (m # ms) = andThen m (\<lambda>x. andThen (sequence ms) (\<lambda>xs. Inr (x # xs)))"

fun toStr :: "jsval \<Rightarrow> js_error + jsstring" where
  "toStr JUndefined = Inr (u ''undefined'')"
| "toStr JNull = Inr (u ''null'')"
| "toStr (JBool b) = Inr (if b then u ''true'' else u ''false'')"
| "toStr (JNum n) = Inr (showInt n)"
| "toStr (JStr s) = Inr s"
| "toStr (JArr xs) =
     andThen (sequence (map (\<lambda>x. if x = JUndefined \<or> x = JNull then Inr [] else toStr x) xs))
       (\<lambda>ss. Inr (joinWith (u '','') ss))"
| "toStr (JObj fs) =
     (if u ''toString'' \<in> fst ` set fs then Inl TypeError else Inr (u ''[object Object]''))"

text \<open>A template literal: the pieces are evaluated and converted from left to right, and
  the first exception ends the evaluation.\<close>

definition template :: "(js_error + jsstring) list \<Rightarrow> js_error + jsstring" where
  "template pieces = andThen (sequence pieces) (\<lambda>ss. Inr (concat ss))"

definition lit :: "string \<Rightarrow> js_error + jsstring" where
  "lit s = Inr (u s)"

definition jsOr :: "jsval \<Rightarrow> jsval \<Rightarrow> jsval" where
  "jsOr a b = (if truthy a then a else b)"

definition escapeChar :: "16 word \<Rightarrow> jsstring" where
  \<open>escapeChar m =
     (if m = 38 then u ''&amp;''
      else if m = 60 then u ''&lt;''
      else if m = 62 then u ''&gt;''
      else if m = 34 then u ''&quot;''
      else if m = 39 then u ''&#039;''
      else [m])\<close>

definition escapeHtml :: "jsval \<Rightarrow> jsval" where
  "escapeHtml text = (case text of JStr s \<Rightarrow> JStr (concat (map escapeChar s)) | _ \<Rightarrow> text)"

definition renderExamples :: "jsval \<Rightarrow> js_error + jsstring" where
  \<open>renderExamples examples =
     (if \<not> truthy examples
         \<or> (\<not> truthy (readProp examples (u ''english'')) \<and> \<not> truthy (readProp examples (u ''khmer'')))
      then Inr []
      else template
        [lit ''\<newline>'',
         lit ''        <div class="word-examples">\<newline>'',
         lit ''            <div class="example-label">Examples:</div>\<newline>'',
         lit ''            '',
         if truthy (readProp examples (u ''english''))
         then template [lit ''<div class="example-text">"'',
                        toStr (escapeHtml (readProp examples (u ''english''))),
                        lit ''"</div>'']
         else Inr [],
         lit ''\<newline>'',
         lit ''            '',
         if truthy (readProp examples (u ''khmer''))
         then template [lit ''<div class="example-text khmer">"'',
                        toStr (escapeHtml (readProp examples (u ''khmer''))),
                        lit ''"</div>'']
         else Inr [],
         lit ''\<newline>'',
         lit ''        </div>\<newline>'',
         lit ''    ''])\<close>

definition renderTags :: "jsval \<Rightarrow> js_error + jsstring" where
  \<open>renderTags tags =
     (case tags of
        JArr ts \<Rightarrow>
          if length ts = 0 then Inr []
          else template
            [lit ''\<newline>'',
             lit ''        <div class="word-tags">\<newline>'',
             lit ''            '',
             template (map (\<lambda>tag. template [lit ''<span class="tag">'',
                                               toStr (escapeHtml tag),
                                               lit ''</span>'']) ts),
             lit ''\<newline>'',
             lit ''        </div>\<newline>'',
             lit ''    '']
      | _ \<Rightarrow> Inr [])\<close>

definition renderReference :: "jsval \<Rightarrow> js_error + jsstring" where
  \<open>renderReference reference =
     (if \<not> truthy reference \<or> reference = JStr (u ''#'') then Inr []
      else template
        [lit ''\<newline>'',
         lit ''        <a href="'',
         toStr (escapeHtml reference),
         lit ''" class="word-reference" target="_blank" rel="noopener">\<newline>'',
         Inr (u ''            <span>'' @ [0xD83D, 0xDCC2] @ u ''</span>\<newline>''),
         lit ''            Reference\<newline>'',
         lit ''        </a>\<newline>'',
         lit ''    ''])\<close>

text \<open>
  The lookup \<open>categoriesData[key]\<close> with a key taken from the data. It finds an own
  property, or else a member inherited from the prototype of the value: of
  \<open>Object.prototype\<close> for an object, and of \<open>Array.prototype\<close>, \<open>String.prototype\<close>,
  \<open>Number.prototype\<close> or \<open>Boolean.prototype\<close>, and through them of \<open>Object.prototype\<close>,
  for the other values. An inherited method is a function object, of which the card
  reads \<open>icon\<close> (missing) and \<open>name\<close>; it is represented by an object with that \<open>name\<close>.
  The key \<open>constructor\<close> yields the constructor function, the key \<open>__proto__\<close> the
  prototype itself, which has neither \<open>icon\<close> nor \<open>name\<close>. The methods are those of
  ECMAScript 2023 with its Annex B.
\<close>

definition objectPrototypeMethods :: "jsstring list" where
  "objectPrototypeMethods =
     map u [''__defineGetter__'', ''__defineSetter__'', ''hasOwnProperty'', ''__lookupGetter__'',
            ''__lookupSetter__'', ''isPrototypeOf'', ''propertyIsEnumerable'', ''toString'',
            ''valueOf'', ''toLocaleString'']"

definition arrayPrototypeMethods :: "jsstring list" where
  "arrayPrototypeMethods =
     map u [''at'', ''concat'', ''copyWithin'', ''entries'', ''every'', ''fill'', ''filter'',
            ''find'', ''findIndex'', ''findLast'', ''findLastIndex'', ''flat'', ''flatMap'',
            ''forEach'', ''includes'', ''indexOf'', ''join'', ''keys'', ''lastIndexOf'', ''map'',
            ''pop'', ''push'', ''reduce'', ''reduceRight'', ''reverse'', ''shift'', ''slice'',
            ''some'', ''sort'', ''splice'', ''toLocaleString'', ''toReversed'', ''toSorted'',
            ''toSpliced'', ''toString'', ''unshift'', ''values'', ''with'']"

definition stringPrototypeMethods :: "jsstring list" where
  "stringPrototypeMethods =
     map u [''at'', ''charAt'', ''charCodeAt'', ''codePointAt'', ''concat'', ''endsWith'',
            ''includes'', ''indexOf'', ''lastIndexOf'', ''localeCompare'', ''match'', ''matchAll'',
            ''normalize'', ''padEnd'', ''padStart'', ''repeat'', ''replace'', ''replaceAll'',
            ''search'', ''slice'', ''split'', ''startsWith'', ''substring'',
            ''toLocaleLowerCase'', ''toLocaleUpperCase'', ''toLowerCase'', ''toString'',
            ''toUpperCase'', ''trim'', ''trimEnd'', ''trimStart'', ''valueOf'', ''substr'',
            ''anchor'', ''big'', ''blink'', ''bold'', ''fixed'', ''fontcolor'', ''fontsize'',
            ''italics'', ''link'', ''small'', ''strike'', ''sub'', ''sup'', ''trimLeft'',
            ''trimRight'']"

definition numberPrototypeMethods :: "jsstring list" where
  "numberPrototypeMethods =
     map u [''toExponential'', ''toFixed'', ''toLocaleString'', ''toPrecision'', ''toString'',
            ''valueOf'']"

definition booleanPrototypeMethods :: "jsstring list" where
  "booleanPrototypeMethods = map u [''toString'', ''valueOf'']"

definition inherited :: "jsstring \<Rightarrow> jsval" where
  "inherited k =
     (if k = u ''__proto__'' then JObj []
      else if k = u ''constructor'' then JObj [(u ''name'', JStr (u ''Object''))]
      else if k \<in> set objectPrototypeMethods then JObj [(u ''name'', JStr k)]
      else JUndefined)"

definition inheritedFrom :: "jsstring \<Rightarrow> jsstring list \<Rightarrow> jsstring \<Rightarrow> jsval" where
  "inheritedFrom constructorName methods k =
     (if k = u ''__proto__'' then JObj []
      else if k = u ''constructor'' then JObj [(u ''name'', JStr constructorName)]
      else if k \<in> set methods then JObj [(u ''name'', JStr k)]
      else inherited k)"

definition lookupKey :: "jsval \<Rightarrow> jsstring \<Rightarrow> jsval" where
  "lookupKey obj k =
     (case obj of
        JObj fs \<Rightarrow> (case map_of fs k of Some v \<Rightarrow> v | None \<Rightarrow> inherited k)
      | JArr xs \<Rightarrow>
          if k = u ''length'' \<or> indexed xs k \<noteq> None then readProp obj k
          else inheritedFrom (u ''Array'') arrayPrototypeMethods k
      | JStr s \<Rightarrow>
          if k = u ''length'' \<or> indexed s k \<noteq> None then readProp obj k
          else inheritedFrom (u ''String'') stringPrototypeMethods k
      | JNum n \<Rightarrow> inheritedFrom (u ''Number'') numberPrototypeMethods k
      | JBool b \<Rightarrow> inheritedFrom (u ''Boolean'') booleanPrototypeMethods k
      | _ \<Rightarrow> JUndefined)"

definition createWordCard :: "jsval \<Rightarrow> jsval \<Rightarrow> js_error + jsstring" where
  \<open>createWordCard cats word =
     andThen (getProp word (u ''category'')) (\<lambda>categoryKey.
     andThen (toStr categoryKey) (\<lambda>key.
     andThen (if nullish cats then Inl TypeError else Inr (lookupKey cats key)) (\<lambda>found.
       let category =
             jsOr found (JObj [(u ''icon'', JStr [0xD83D, 0xDCDD]),
                               (u ''name'', JObj [(u ''english'', categoryKey)])])
       in template
           [lit ''\<newline>'',
            lit ''        <div class="word-card slide-up">\<newline>'',
            lit ''            <div class="word-english">'',
            toStr (escapeHtml (readProp word (u ''english''))),
            lit ''</div>\<newline>'',
            lit ''            <div class="word-khmer">'',
            toStr (escapeHtml (readProp word (u ''khmer''))),
            lit ''</div>\<newline>'',
            lit ''            <div class="word-category">\<newline>'',
            lit ''                '',
            andThen (getProp category (u ''icon'')) toStr,
            lit '' '',
            andThen (getProp category (u ''name'')) (\<lambda>name.
              andThen (getProp name (u ''english'')) toStr),
            lit ''\<newline>'',
            lit ''            </div>\<newline>'',
            lit ''            <div class="word-description">'',
            toStr (escapeHtml (jsOr (readProp word (u ''description''))
                                    (JStr (u ''No description available'')))),
            lit ''</div>\<newline>'',
            lit ''            '',
            renderExamples (readProp word (u ''examples'')),
            lit ''\<newline>'',
            lit ''            '',
            renderTags (readProp word (u ''tags'')),
            lit ''\<newline>'',
            lit ''            <div class="word-footer">\<newline>'',
            lit ''                <div class="word-date">Added: '',
            toStr (jsOr (readProp word (u ''dateAdded'')) (JStr (u ''Unknown''))),
            lit ''</div>\<newline>'',
            lit ''                '',
            renderReference (readProp word (u ''reference'')),
            lit ''\<newline>'',
            lit ''            </div>\<newline>'',
            lit ''        </div>\<newline>'',
            lit ''    ''])))\<close>

text \<open>
  State-changing operations return the exception they ended with, if any, and the state
  they left.
\<close>

type_synonym outcome = "js_error option"

definition noResultsHTML :: jsstring where
  \<open>noResultsHTML =
     u ''\<newline>'' @
     u ''        <div class="no-results">\<newline>'' @
     u ''            <h3>No terms found</h3>\<newline>'' @
     u ''            <p>Try adjusting your search or filter criteria</p>\<newline>'' @
     u ''            <button onclick="openContributeModal()" class="btn btn-primary" style="margin-top: 25px;">\<newline>'' @
     u ''                <span>'' @ [0x2795] @ u ''</span>\<newline>'' @
     u ''                Contribute New Terms\<newline>'' @
     u ''            </button>\<newline>'' @
     u ''        </div>\<newline>'' @
     u ''    ''\<close>

definition renderNoResults :: "app \<Rightarrow> outcome \<times> app" where
  "renderNoResults st =
     (case wordGrid (elements st) of
        None \<Rightarrow> (Some TypeError, st)
      | Some _ \<Rightarrow> (None, st \<lparr> elements := (elements st) \<lparr> wordGrid := Some noResultsHTML \<rparr> \<rparr>))"

definition renderWordCards :: "jsval list \<Rightarrow> app \<Rightarrow> outcome \<times> app" where
  "renderWordCards ws st =
     (case sequence (map (createWordCard (categoriesData st)) ws) of
        Inl e \<Rightarrow> (Some e, st)
      | Inr cards \<Rightarrow>
          (case wordGrid (elements st) of
             None \<Rightarrow> (Some TypeError, st)
           | Some _ \<Rightarrow> (None, st \<lparr> elements := (elements st) \<lparr> wordGrid := Some (concat cards) \<rparr> \<rparr>)))"

definition renderWords :: "(jsstring \<Rightarrow> jsstring) \<Rightarrow> app \<Rightarrow> outcome \<times> app" where
  "renderWords lower st =
     (if wordGrid (elements st) = None \<or> resultsCount (elements st) = None then (None, st)
      else
        (case filterWords lower st of
           Inl e \<Rightarrow> (Some e, st)
         | Inr filteredWords \<Rightarrow>
             let st' = st \<lparr> elements := (elements st)
                          \<lparr> resultsCount := Some (showNat (length filteredWords) @ u '' terms found'') \<rparr> \<rparr>
             in if length filteredWords = 0 then renderNoResults st'
                else renderWordCards filteredWords st'))"

section \<open>Panels\<close>

definition thenDo :: "(app \<Rightarrow> outcome \<times> app) \<Rightarrow> (app \<Rightarrow> outcome \<times> app) \<Rightarrow> app \<Rightarrow> outcome \<times> app" where
  "thenDo f g st = (case f st of (None, st') \<Rightarrow> g st' | (Some e, st') \<Rightarrow> (Some e, st'))"

definition attempt :: "js_error + 'a \<Rightarrow> ('a \<Rightarrow> app \<Rightarrow> outcome \<times> app) \<Rightarrow> app \<Rightarrow> outcome \<times> app" where
  "attempt m f st = (case m of Inl e \<Rightarrow> (Some e, st) | Inr v \<Rightarrow> f v st)"

text \<open>Assignments to \<open>style.display\<close>; on a missing element the assignment throws.\<close>

definition setLoadingDisplay :: "jsstring \<Rightarrow> app \<Rightarrow> outcome \<times> app" where
  "setLoadingDisplay d st =
     (case loading (elements st) of
        None \<Rightarrow> (Some TypeError, st)
      | Some _ \<Rightarrow> (None, st \<lparr> elements := (elements st) \<lparr> loading := Some d \<rparr> \<rparr>))"

definition setErrorDisplay :: "jsstring \<Rightarrow> app \<Rightarrow> outcome \<times> app" where
  "setErrorDisplay d st =
     (case error (elements st) of
        None \<Rightarrow> (Some TypeError, st)
      | Some _ \<Rightarrow> (None, st \<lparr> elements := (elements st) \<lparr> error := Some d \<rparr> \<rparr>))"

definition setMainContentDisplay :: "jsstring \<Rightarrow> app \<Rightarrow> outcome \<times> app" where
  "setMainContentDisplay d st =
     (case mainContent (elements st) of
        None \<Rightarrow> (Some TypeError, st)
      | Some (_, classList) \<Rightarrow> (None, st \<lparr> elements := (elements st) \<lparr> mainContent := Some (d, classList) \<rparr> \<rparr>))"

definition addMainContentClass :: "jsstring \<Rightarrow> app \<Rightarrow> outcome \<times> app" where
  "addMainContentClass c st =
     (case mainContent (elements st) of
        None \<Rightarrow> (Some TypeError, st)
      | Some (d, classList) \<Rightarrow>
          (None, st \<lparr> elements := (elements st)
                   \<lparr> mainContent := Some (d, if c \<in> set classList then classList else classList @ [c]) \<rparr> \<rparr>))"

definition showLoading :: "app \<Rightarrow> outcome \<times> app" where
  "showLoading =
     thenDo (setLoadingDisplay (u ''block''))
    (thenDo (setErrorDisplay (u ''none''))
            (setMainContentDisplay (u ''none'')))"

definition hideLoading :: "app \<Rightarrow> outcome \<times> app" where
  "hideLoading = setLoadingDisplay (u ''none'')"

definition showError :: "app \<Rightarrow> outcome \<times> app" where
  "showError =
     thenDo (setLoadingDisplay (u ''none''))
    (thenDo (setErrorDisplay (u ''block''))
            (setMainContentDisplay (u ''none'')))"

definition showMainContent :: "app \<Rightarrow> outcome \<times> app" where
  "showMainContent =
     thenDo (setMainContentDisplay (u ''block'')) (addMainContentClass (u ''fade-in''))"

section \<open>Interface initialization\<close>

text \<open>\<open>Object.entries\<close>: the own enumerable properties, in property order.\<close>

definition entries :: "jsval \<Rightarrow> js_error + (jsstring \<times> jsval) list" where
  "entries v =
     (case v of
        JUndefined \<Rightarrow> Inl TypeError
      | JNull \<Rightarrow> Inl TypeError
      | JObj fs \<Rightarrow> Inr fs
      | JArr xs \<Rightarrow> Inr (map (\<lambda>i. (showNat i, xs ! i)) [0..<length xs])
      | JStr s \<Rightarrow> Inr (map (\<lambda>i. (showNat i, JStr [s ! i])) [0..<length s])
      | _ \<Rightarrow> Inr [])"

definition createFilterButton :: "jsstring \<Rightarrow> jsval \<Rightarrow> jsval \<Rightarrow> bool \<Rightarrow> js_error + button" where
  "createFilterButton categoryKey name icon isActive =
     andThen (template [toStr icon, lit '' '', toStr name]) (\<lambda>html.
       Inr \<lparr> className = u ''filter-btn '' @ (if isActive then u ''active'' else []),
             dataCategory = categoryKey,
             buttonHTML = html,
             ariaPressed = (if isActive then u ''true'' else u ''false'') \<rparr>)"

definition appendButton :: "button \<Rightarrow> app \<Rightarrow> outcome \<times> app" where
  "appendButton b st =
     (case filterButtons (elements st) of
        None \<Rightarrow> (Some TypeError, st)
      | Some bs \<Rightarrow> (None, st \<lparr> elements := (elements st) \<lparr> filterButtons := Some (bs @ [b]) \<rparr> \<rparr>))"

text \<open>\<open>forEach\<close> with a callback that changes the state: an exception ends the loop and
  keeps what was done before it.\<close>

fun forEach :: "('a \<Rightarrow> app \<Rightarrow> outcome \<times> app) \<Rightarrow> 'a list \<Rightarrow> app \<Rightarrow> outcome \<times> app" where
  "forEach f [] st = (None, st)"
| "forEach f (x # xs) st = thenDo (f x) (forEach f xs) st"

definition populateCategoryButtons :: "app \<Rightarrow> outcome \<times> app" where
  "populateCategoryButtons st =
     (if filterButtons (elements st) = None then (None, st)
      else
        thenDo (\<lambda>st. (None, st \<lparr> elements := (elements st) \<lparr> filterButtons := Some [] \<rparr> \<rparr>))
       (thenDo (attempt (createFilterButton (u ''all'') (JStr (u ''All Categories''))
                           (JStr [0xD83D, 0xDCDA]) True) appendButton)
               (\<lambda>st. attempt (entries (categoriesData st))
                  (forEach (\<lambda>(categoryKey, category).
                     attempt (andThen (getProp category (u ''name'')) (\<lambda>name.
                              andThen (getProp name (u ''english'')) (\<lambda>english.
                              andThen (getProp category (u ''icon'')) (\<lambda>icon.
                                createFilterButton categoryKey english
                                  (jsOr icon (JStr [0xD83D, 0xDCDD])) False))))
                       appendButton)) st)) st)"

text \<open>
  The size of a \<open>Set\<close> built from a list: primitive values count once each; every array
  and object of parsed JSON is an object of its own.
\<close>

fun isPrimitive :: "jsval \<Rightarrow> bool" where
  "isPrimitive (JArr xs) = False"
| "isPrimitive (JObj fs) = False"
| "isPrimitive v = True"

definition setSize :: "jsval list \<Rightarrow> nat" where
  "setSize xs = length (remdups (filter isPrimitive xs)) + length (filter (\<lambda>x. \<not> isPrimitive x) xs)"

definition statCard :: "jsval \<Rightarrow> string \<Rightarrow> js_error + jsstring" where
  \<open>statCard number label =
     template
       [lit ''\<newline>'',
        lit ''        <div class="stat-card">\<newline>'',
        lit ''            <div class="stat-number">'',
        toStr number,
        lit ''</div>\<newline>'',
        lit ''            <div class="stat-label">'',
        lit label,
        lit ''</div>\<newline>'',
        lit ''        </div>\<newline>'',
        lit ''    '']\<close>

definition updateStats :: "app \<Rightarrow> outcome \<times> app" where
  "updateStats st =
     (if statsContainer (elements st) = None then (None, st)
      else
        attempt
          (andThen (getProp (lexiconData st) (u ''length'')) (\<lambda>totalTerms.
           andThen (entries (categoriesData st)) (\<lambda>es.
           let totalCategories = JNum (int (length es)) in
           andThen (case lexiconData st of
                      JArr terms \<Rightarrow>
                        andThen (sequence (map (\<lambda>t.
                                   andThen (getProp t (u ''contributors'')) (\<lambda>c.
                                     Inr (case jsOr c (JArr []) of JArr ys \<Rightarrow> ys | v \<Rightarrow> [v]))) terms))
                          (\<lambda>yss. Inr (JNum (int (setSize (concat yss)))))
                    | _ \<Rightarrow> Inl TypeError) (\<lambda>totalContributors.
           andThen (case lexiconData st of
                      JArr terms \<Rightarrow>
                        andThen (array_filter (\<lambda>t.
                                   andThen (getProp t (u ''status'')) (\<lambda>s.
                                     Inr (JBool (s = JStr (u ''verified''))))) terms)
                          (\<lambda>vs. Inr (JNum (int (length vs))))
                    | _ \<Rightarrow> Inl TypeError) (\<lambda>verifiedTerms.
           template
             [statCard totalTerms ''Technical Terms'',
              statCard totalCategories ''Categories'',
              statCard totalContributors ''Contributors'',
              statCard verifiedTerms ''Verified Terms''])))))
          (\<lambda>html st. (None, st \<lparr> elements := (elements st) \<lparr> statsContainer := Some html \<rparr> \<rparr>))
          st)"

definition setupEventListeners :: "app \<Rightarrow> outcome \<times> app" where
  "setupEventListeners st =
     (None, st \<lparr> listeners := listeners st
                   @ (if searchInput (elements st) then [SearchInput] else [])
                   @ (if filterButtons (elements st) \<noteq> None then [FilterClick] else [])
                   @ (if contributeModal (elements st) then [ModalClick] else [])
                   @ [Keydown, Resize] \<rparr>)"

definition initializeInterface :: "app \<Rightarrow> outcome \<times> app" where
  "initializeInterface = thenDo populateCategoryButtons (thenDo updateStats setupEventListeners)"

section \<open>Loading\<close>

text \<open>
  A promise, by what becomes of it: it settles at some millisecond after the call of
  \<open>loadData\<close>, fulfilled with a value or rejected with an exception, or it stays pending
  for ever.
\<close>

datatype 'a promise = Settles nat "js_error + 'a" | Pending

text \<open>
  What the network does with one request. The promise of \<open>fetch\<close> settles when the
  status line and the headers of the answer are there. The body is read afterwards, by
  \<open>response.json()\<close>, whose promise is fulfilled with the parsed document, rejected when
  the body is not JSON or the connection breaks, or pending for ever when the body never
  arrives in full.
\<close>

record response =
  status :: nat
  json :: "jsval promise"

type_synonym fetched = "response promise"

definition ok :: "response \<Rightarrow> bool" where
  "ok r = (200 \<le> status r \<and> status r \<le> 299)"

text \<open>
  \<open>fetchWithTimeout\<close>. The timer aborts a request that has not settled when it fires (a
  request settling in the very millisecond of the timer counts as not settled), and the
  aborted \<open>fetch\<close> rejects. The timer is cleared as soon as \<open>fetch\<close> has settled: it
  does not run while the body is read. A response with a status outside 200 to 299 is
  turned into an exception.
\<close>

definition fetchWithTimeout :: "(jsstring \<Rightarrow> fetched) \<Rightarrow> jsstring \<Rightarrow> nat \<Rightarrow> response promise" where
  "fetchWithTimeout network url timeout =
     (case network url of
        Pending \<Rightarrow> Settles timeout (Inl AbortError)
      | Settles t r \<Rightarrow>
          if timeout \<le> t then Settles timeout (Inl AbortError)
          else Settles t (andThen r (\<lambda>response.
                 if \<not> ok response then Inl (HttpError (status response)) else Inr response)))"

text \<open>
  \<open>Promise.all\<close>: rejected as soon as one of the promises is (with the earliest
  rejection, the first in the array among those of one millisecond); otherwise pending
  as long as one of them is; otherwise fulfilled, when the last of them is, with the
  array of their values.
\<close>

fun promiseAll :: "'a promise list \<Rightarrow> 'a list promise" where
  "promiseAll [] = Settles 0 (Inr [])"
| "promiseAll (Settles t (Inl e) # ps) =
     (case promiseAll ps of
        Settles t' (Inl e') \<Rightarrow> if t' < t then Settles t' (Inl e') else Settles t (Inl e)
      | _ \<Rightarrow> Settles t (Inl e))"
| "promiseAll (Settles t (Inr v) # ps) =
     (case promiseAll ps of
        Settles t' (Inl e') \<Rightarrow> Settles t' (Inl e')
      | Settles t' (Inr vs) \<Rightarrow> Settles (max t t') (Inr (v # vs))
      | Pending \<Rightarrow> Pending)"
| "promiseAll (Pending # ps) =
     (case promiseAll ps of
        Settles t' (Inl e') \<Rightarrow> Settles t' (Inl e')
      | _ \<Rightarrow> Pending)"

text \<open>
  An asynchronous function has finished, with the exception it ended with, if any, or
  it is suspended for ever at an \<open>await\<close> whose promise stays pending. \<open>await\<close> hands the
  state on as it is: while \<open>loadData\<close> waits no listener of the program is attached
  yet, so no other code of the program runs in between.
\<close>

datatype progress = Finished outcome | Suspended

definition await :: "'a promise \<Rightarrow> ('a \<Rightarrow> app \<Rightarrow> progress \<times> app) \<Rightarrow> app \<Rightarrow> progress \<times> app" where
  "await p f st =
     (case p of
        Pending \<Rightarrow> (Suspended, st)
      | Settles t (Inl e) \<Rightarrow> (Finished (Some e), st)
      | Settles t (Inr v) \<Rightarrow> f v st)"

definition finish :: "(app \<Rightarrow> outcome \<times> app) \<Rightarrow> app \<Rightarrow> progress \<times> app" where
  "finish f st = (case f st of (r, st') \<Rightarrow> (Finished r, st'))"

definition thenAwait :: "(app \<Rightarrow> outcome \<times> app) \<Rightarrow> (app \<Rightarrow> progress \<times> app) \<Rightarrow> app \<Rightarrow> progress \<times> app" where
  "thenAwait f g st = (case f st of (None, st') \<Rightarrow> g st' | (Some e, st') \<Rightarrow> (Finished (Some e), st'))"

text \<open>
  \<open>loadData\<close>: the body of the \<open>try\<close> block, and the whole function with its \<open>catch\<close>.
  The three requests are started together and awaited together; the three bodies are
  then read one after the other, each \<open>response.json()\<close> being called only when the one
  before it has settled. The final \<open>console.log\<close> reads two lengths of values that are
  never \<open>null\<close> and cannot throw.
\<close>

definition loadData_try :: "(jsstring \<Rightarrow> jsstring) \<Rightarrow> (jsstring \<Rightarrow> fetched) \<Rightarrow> app \<Rightarrow> progress \<times> app" where
  "loadData_try lower network =
     thenAwait showLoading
    (await (promiseAll [fetchWithTimeout network (u ''data/lexicon.json'') 10000,
                        fetchWithTimeout network (u ''data/categories.json'') 10000,
                        fetchWithTimeout network (u ''data/website.json'') 10000]) (\<lambda>responses.
     (case responses of
        [lexiconResponse, categoriesResponse, websiteResponse] \<Rightarrow>
          (await (json lexiconResponse) (\<lambda>lexiconJson.
           await (json categoriesResponse) (\<lambda>categoriesJson.
           await (json websiteResponse) (\<lambda>websiteJson.
           finish
          (attempt (getProp lexiconJson (u ''terms'')) (\<lambda>terms.
           thenDo (\<lambda>st. (None, st \<lparr> lexiconData := jsOr terms (JArr []) \<rparr>))
          (attempt (getProp categoriesJson (u ''categories'')) (\<lambda>categories.
           thenDo (\<lambda>st. (None, st \<lparr> categoriesData := jsOr categories (JObj []) \<rparr>))
          (thenDo (\<lambda>st. (None, st \<lparr> websiteInfo := jsOr websiteJson (JObj []) \<rparr>))
          (thenDo hideLoading
          (thenDo showMainContent
          (thenDo initializeInterface
                  (renderWords lower)))))))))))))
      | _ \<Rightarrow> (\<lambda>st. (Finished (Some TypeError), st)))))"

definition loadData :: "(jsstring \<Rightarrow> jsstring) \<Rightarrow> (jsstring \<Rightarrow> fetched) \<Rightarrow> app \<Rightarrow> progress \<times> app" where
  "loadData lower network st =
     (case loadData_try lower network st of
        (Suspended, st') \<Rightarrow> (Suspended, st')
      | (Finished None, st') \<Rightarrow> (Finished None, st')
      | (Finished (Some e), st') \<Rightarrow> finish showError st')"

section \<open>Export\<close>

text \<open>
  The browser services of \<open>exportJSON\<close>: the clock (the ISO string of \<open>new Date()\<close>, read
  for the metadata and again for the file name), \<open>JSON.stringify\<close>, and the download
  through a temporary link, which may throw.
\<close>

record browser =
  exportClock :: jsstring
  fileClock :: jsstring
  stringify :: "jsval \<Rightarrow> js_error + jsstring"
  download :: "jsstring \<Rightarrow> jsstring \<Rightarrow> outcome"

datatype export_effect = Downloaded jsstring jsstring | Alerted jsstring

definition getCurrentDateString :: "jsstring \<Rightarrow> jsstring" where
  "getCurrentDateString isoString = takeWhile (\<lambda>c. c \<noteq> 84) isoString"

definition dataToExport :: "jsstring \<Rightarrow> app \<Rightarrow> js_error + jsval" where
  "dataToExport now st =
     andThen (getProp (lexiconData st) (u ''length'')) (\<lambda>totalTerms.
     andThen (getProp (websiteInfo st) (u ''project'')) (\<lambda>project.
     let version = jsOr (if nullish project then JUndefined else readProp project (u ''version''))
                        (JStr (u ''1.0.0''))
     in Inr (JObj [(u ''metadata'',
                     JObj [(u ''exportDate'', JStr now),
                           (u ''totalTerms'', totalTerms),
                           (u ''version'', version),
                           (u ''exportedBy'', JStr (u ''Domra Tech Lexicon''))]),
                   (u ''terms'', lexiconData st),
                   (u ''categories'', categoriesData st)])))"

definition exportJSON :: "browser \<Rightarrow> app \<Rightarrow> export_effect \<times> app" where
  "exportJSON env st =
     (case andThen (dataToExport (exportClock env) st) (\<lambda>d.
           andThen (stringify env d) (\<lambda>dataStr.
             let name = u ''domra-tech-lexicon-'' @ getCurrentDateString (fileClock env) @ u ''.json''
             in case download env name dataStr of
                  Some e \<Rightarrow> Inl e
                | None \<Rightarrow> Inr (Downloaded name dataStr))) of
        Inl e \<Rightarrow> (Alerted (u ''Error exporting data. Please try again.''), st)
      | Inr eff \<Rightarrow> (eff, st))"

section \<open>The typed view of a term\<close>

text \<open>
  The data model's Term: English and Khmer name, category key, and the optional
  description, tags and examples (English example, Khmer example). \<open>viewTerm\<close> reads a
  JSON object as such a term when its fields have these types. An optional field is
  absent when it holds a falsy value (missing, \<open>null\<close>, \<open>false\<close>, \<open>0\<close>, the empty
  string); an example is absent when it is missing or \<open>null\<close>.
\<close>

record lexicon_term =
  englishName :: jsstring
  khmerName :: jsstring
  categoryKey :: jsval
  description :: "jsstring option"
  tags :: "jsstring list option"
  examples :: "(jsstring option \<times> jsstring option) option"

fun asStr :: "jsval \<Rightarrow> jsstring option" where
  "asStr (JStr s) = Some s"
| "asStr v = None"

definition optString :: "jsval \<Rightarrow> jsstring option option" where
  "optString v = (if truthy v then map_option Some (asStr v) else Some None)"

definition optTags :: "jsval \<Rightarrow> jsstring list option option" where
  "optTags v =
     (if truthy v then (case v of JArr ts \<Rightarrow> map_option Some (those (map asStr ts)) | _ \<Rightarrow> None)
      else Some None)"

definition optExample :: "jsval \<Rightarrow> jsstring option option" where
  "optExample v = (if nullish v then Some None else map_option Some (asStr v))"

definition optExamples :: "jsval \<Rightarrow> (jsstring option \<times> jsstring option) option option" where
  "optExamples v =
     (if truthy v then
        do { e \<leftarrow> optExample (readProp v (u ''english''));
             k \<leftarrow> optExample (readProp v (u ''khmer''));
             Some (Some (e, k)) }
      else Some None)"

definition viewTerm :: "jsval \<Rightarrow> lexicon_term option" where
  "viewTerm w =
     (case w of
        JObj fs \<Rightarrow>
          do { e \<leftarrow> asStr (own fs (u ''english''));
               k \<leftarrow> asStr (own fs (u ''khmer''));
               d \<leftarrow> optString (own fs (u ''description''));
               t \<leftarrow> optTags (own fs (u ''tags''));
               x \<leftarrow> optExamples (own fs (u ''examples''));
               Some \<lparr> englishName = e, khmerName = k, categoryKey = own fs (u ''category''),
                      description = d, tags = t, examples = x \<rparr> }
      | _ \<Rightarrow> None)"

text \<open>
  The two predicates of the query contract, in the specification's words: the category
  matches when the selection is \<open>all\<close> or equals the term's category key; the text
  matches when the search text is empty or one of the five field checks succeeds.
\<close>

definition categoryMatches_spec :: "jsstring \<Rightarrow> lexicon_term \<Rightarrow> bool" where
  "categoryMatches_spec selectedCategory t =
     (selectedCategory = u ''all'' \<or> categoryKey t = JStr selectedCategory)"

definition fieldChecks_spec :: "(jsstring \<Rightarrow> jsstring) \<Rightarrow> jsstring \<Rightarrow> lexicon_term \<Rightarrow> bool" where
  "fieldChecks_spec lower searchText t =
     (str_includes (lower (englishName t)) (lower searchText)
      \<or> str_includes (khmerName t) searchText
      \<or> (case description t of
            Some d \<Rightarrow> str_includes (lower d) (lower searchText)
          | None \<Rightarrow> False)
      \<or> (case tags t of
            Some ts \<Rightarrow> list_ex (\<lambda>tag. str_includes (lower tag) (lower searchText)) ts
          | None \<Rightarrow> False)
      \<or> (case examples t of
            Some (englishExample, khmerExample) \<Rightarrow>
              (case englishExample of
                 Some s \<Rightarrow> str_includes (lower s) (lower searchText)
               | None \<Rightarrow> False)
              \<or> (case khmerExample of
                    Some s \<Rightarrow> str_includes s searchText
                  | None \<Rightarrow> False)
          | None \<Rightarrow> False))"

definition textMatches_spec :: "(jsstring \<Rightarrow> jsstring) \<Rightarrow> jsstring \<Rightarrow> lexicon_term \<Rightarrow> bool" where
  "textMatches_spec lower searchText t = (searchText = [] \<or> fieldChecks_spec lower searchText t)"

text \<open>The visible set of the data model's invariant.\<close>

definition visible_spec :: "(jsstring \<Rightarrow> jsstring) \<Rightarrow> jsstring \<Rightarrow> jsstring \<Rightarrow> jsval \<Rightarrow> bool" where
  "visible_spec lower selectedCategory searchText w =
     (case viewTerm w of
        Some t \<Rightarrow> categoryMatches_spec selectedCategory t \<and> textMatches_spec lower searchText t
      | None \<Rightarrow> False)"

text \<open>
  A request fails: it is rejected or never answered, answered after more than the ten
  seconds, or answered with a status outside 200 to 299. A body fails: the request does
  not fail and its body is not JSON. A body stalls: the request does not fail and its
  body never arrives. A resource fails when its request or its body fails.
\<close>

definition requestFails_spec :: "fetched \<Rightarrow> bool" where
  "requestFails_spec net =
     (case net of
        Pending \<Rightarrow> True
      | Settles t r \<Rightarrow>
          10000 < t
          \<or> (case r of
                Inl e \<Rightarrow> True
              | Inr response \<Rightarrow> status response < 200 \<or> 299 < status response))"

definition bodyFails_spec :: "fetched \<Rightarrow> bool" where
  "bodyFails_spec net =
     (\<not> requestFails_spec net
      \<and> (case net of
            Settles t (Inr response) \<Rightarrow>
              (case json response of Settles t' (Inl e) \<Rightarrow> True | _ \<Rightarrow> False)
          | _ \<Rightarrow> False))"

definition bodyStalls_spec :: "fetched \<Rightarrow> bool" where
  "bodyStalls_spec net =
     (\<not> requestFails_spec net
      \<and> (case net of
            Settles t (Inr response) \<Rightarrow> json response = Pending
          | _ \<Rightarrow> False))"

definition resourceFails_spec :: "fetched \<Rightarrow> bool" where
  "resourceFails_spec net = (requestFails_spec net \<or> bodyFails_spec net)"

text \<open>
  A resource is delivered: the request is answered within the ten seconds with a status
  from 200 to 299, and its body arrives, at whatever time, and parses to the given
  document.
\<close>

definition delivers_spec :: "fetched \<Rightarrow> jsval \<Rightarrow> bool" where
  "delivers_spec net doc =
     (case net of
        Settles t (Inr response) \<Rightarrow>
          t < 10000 \<and> 200 \<le> status response \<and> status response \<le> 299
          \<and> (case json response of Settles t' (Inr d) \<Rightarrow> d = doc | _ \<Rightarrow> False)
      | _ \<Rightarrow> False)"

text \<open>
  The data model's Category: an object with a display name that has an English variant,
  and an optional icon. A term is renderable when it is a typed term whose category key
  is a string other than \<open>__proto__\<close> and whose date and reference are absent or strings.
\<close>

definition typedCategory :: "jsval \<Rightarrow> bool" where
  "typedCategory c =
     (case c of
        JObj fs \<Rightarrow>
          (case own fs (u ''name'') of
             JObj ns \<Rightarrow> asStr (own ns (u ''english'')) \<noteq> None
           | _ \<Rightarrow> False)
          \<and> optString (own fs (u ''icon'')) \<noteq> None
      | _ \<Rightarrow> False)"

definition typedCategories :: "jsval \<Rightarrow> bool" where
  "typedCategories cats =
     (case cats of JObj cs \<Rightarrow> list_all (\<lambda>(k, c). typedCategory c) cs | _ \<Rightarrow> False)"

definition renderableTerm :: "jsval \<Rightarrow> bool" where
  "renderableTerm w =
     (case viewTerm w of
        Some t \<Rightarrow>
          (case categoryKey t of JStr c \<Rightarrow> c \<noteq> u ''__proto__'' | _ \<Rightarrow> False)
          \<and> optString (readProp w (u ''dateAdded'')) \<noteq> None
          \<and> optString (readProp w (u ''reference'')) \<noteq> None
      | None \<Rightarrow> False)"

section \<open>The JSON value of a heap value\<close>

text \<open>
  A heap value stands for a JSON value: a primitive for itself, a reference to an array
  for the array of what its elements stand for, a reference to an object for the object
  with the same keys in the same order and what its property values stand for.
\<close>

inductive repr :: "hobj list \<Rightarrow> hval \<Rightarrow> jsval \<Rightarrow> bool"
  and reprList :: "hobj list \<Rightarrow> hval list \<Rightarrow> jsval list \<Rightarrow> bool"
  and reprFields :: "hobj list \<Rightarrow> (jsstring \<times> hval) list \<Rightarrow> (jsstring \<times> jsval) list \<Rightarrow> bool"
  for h :: "hobj list" where
  undefined: "repr h HUndefined JUndefined"
| null: "repr h HNull JNull"
| bool: "repr h (HBool b) (JBool b)"
| num: "repr h (HNum n) (JNum n)"
| str: "repr h (HStr s) (JStr s)"
| arr: "a < length h \<Longrightarrow> h ! a = HArray xs \<Longrightarrow> reprList h xs js \<Longrightarrow> repr h (HRef a) (JArr js)"
| obj: "a < length h \<Longrightarrow> h ! a = HObject fs \<Longrightarrow> reprFields h fs gs \<Longrightarrow> repr h (HRef a) (JObj gs)"
| nil: "reprList h [] []"
| cons: "repr h x j \<Longrightarrow> reprList h xs js \<Longrightarrow> reprList h (x # xs) (j # js)"
| no_fields: "reprFields h [] []"
| field: "repr h v j \<Longrightarrow> reprFields h fs gs \<Longrightarrow> reprFields h ((k, v) # fs) ((k, j) # gs)"

code_pred repr .

section \<open>Sample data\<close>

text \<open>Sample data: what \<open>toLowerCase\<close> does on text whose only cased letters are ASCII,
  a page with every element, and the two terms of the end-to-end scenario.\<close>

definition asciiLower :: "jsstring \<Rightarrow> jsstring" where
  "asciiLower s = map (\<lambda>c. if 65 \<le> c \<and> c \<le> 90 then c + 32 else c) s"

definition fullPage :: elements where
  "fullPage =
     \<lparr> loading = Some (u ''block''), error = Some (u ''none''),
       mainContent = Some (u ''none'', []), searchInput = True, filterButtons = Some [],
       wordGrid = Some [], resultsCount = Some [], statsContainer = Some [],
       contributeModal = True \<rparr>"

definition cacheTerm :: jsval where
  "cacheTerm = JObj [(u ''english'', JStr (u ''Cache'')),
                     (u ''khmer'', JStr [0x17B4, 0x1783, 0x17B6, 0x179F]),
                     (u ''category'', JStr (u ''storage''))]"

definition schedulerTerm :: jsval where
  "schedulerTerm = JObj [(u ''english'', JStr (u ''Scheduler'')),
                         (u ''khmer'', JStr [0x17B4, 0x179F, 0x1788, 0x17C1, 0x178C]),
                         (u ''category'', JStr (u ''compute''))]"

definition scenario :: "jsstring \<Rightarrow> jsstring \<Rightarrow> app" where
  "scenario selectedCategory searchText =
     (initialApp fullPage) \<lparr> lexiconData := JArr [cacheTerm, schedulerTerm],
                             currentFilter := selectedCategory, currentSearch := searchText \<rparr>"

definition apiTerm :: jsval where
  "apiTerm = JObj [(u ''english'', JStr (u ''api gateway'')),
                   (u ''khmer'', JStr [0x17B4, 0x1783, 0x17B6, 0x179F]),
                   (u ''category'', JStr (u ''network'')),
                   (u ''tags'', JArr [JStr (u ''HTTP''), JStr (u ''proxy'')])]"

definition indexTerm :: jsval where
  "indexTerm = JObj [(u ''english'', JStr (u ''Index'')),
                     (u ''khmer'', JStr [0x17B4, 0x1783, 0x17B6, 0x179F]),
                     (u ''category'', JStr (u ''storage'')),
                     (u ''description'', JStr (u ''Speeds up lookups'')),
                     (u ''examples'', JObj [(u ''english'', JStr (u ''Create an index''))])]"

definition malformedTerm :: jsval where
  "malformedTerm = JObj [(u ''english'', JStr (u ''Cache'')),
                         (u ''khmer'', JStr [0x17B4, 0x1783, 0x17B6, 0x179F]),
                         (u ''category'', JStr (u ''storage'')),
                         (u ''description'', JNum 5)]"


definition injectedTerm :: jsval where
  "injectedTerm = JObj [(u ''english'', JStr (u ''<i>Cache</i>'')),
                        (u ''khmer'', JStr [0x17B4, 0x1783, 0x17B6, 0x179F]),
                        (u ''category'', JStr (u ''<b>storage</b>'')),
                        (u ''dateAdded'', JStr (u ''<img src=x onerror=alert(1)>''))]"


text \<open>
  A sample serializer for the export: it writes a value as JSON text on one line, leaves
  out the properties whose value is \<open>undefined\<close>, and does not escape the characters of
  a string. The theorems about the export hold for every serializer; this one serves
  where a concrete browser is needed.
\<close>

fun compactJson :: "jsval \<Rightarrow> jsstring" where
  "compactJson JUndefined = u ''null''"
| "compactJson JNull = u ''null''"
| "compactJson (JBool b) = (if b then u ''true'' else u ''false'')"
| "compactJson (JNum n) = showInt n"
| "compactJson (JStr s) = [0x22] @ s @ [0x22]"
| "compactJson (JArr xs) = u ''['' @ joinWith (u '','') (map compactJson xs) @ u '']''"
| "compactJson (JObj fs) =
     u ''{'' @ joinWith (u '','')
                (map (\<lambda>kv. [0x22] @ fst kv @ [0x22] @ u '':'' @ compactJson (snd kv))
                     (filter (\<lambda>kv. snd kv \<noteq> JUndefined) fs)) @ u ''}''"

definition sampleBrowser :: browser where
  "sampleBrowser =
     \<lparr> exportClock = u ''2024-05-01T23:59:59.999Z'', fileClock = u ''2024-05-02T00:00:00.000Z'',
       stringify = (\<lambda>v. Inr (compactJson v)), download = (\<lambda>name content. None) \<rparr>"

definition blockedBrowser :: browser where
  "blockedBrowser = sampleBrowser \<lparr> download := (\<lambda>name content. Some TypeError) \<rparr>"

definition unserializingBrowser :: browser where
  "unserializingBrowser = sampleBrowser \<lparr> stringify := (\<lambda>v. Inl TypeError) \<rparr>"

text \<open>
  Sample answers of the network: a missing resource (answered after 120 ms with status
  404 and a body that is not JSON), a document served at once (answered after 120 ms,
  the body there after 150 ms), a document whose body is there only after a minute, a
  body that is not JSON, and a body that never arrives.
\<close>

definition notFound :: fetched where
  "notFound = Settles 120 (Inr \<lparr> status = 404, json = Settles 150 (Inl SyntaxError) \<rparr>)"

definition served :: "jsval \<Rightarrow> fetched" where
  "served doc = Settles 120 (Inr \<lparr> status = 200, json = Settles 150 (Inr doc) \<rparr>)"

definition servedSlowly :: "jsval \<Rightarrow> fetched" where
  "servedSlowly doc = Settles 120 (Inr \<lparr> status = 200, json = Settles 60000 (Inr doc) \<rparr>)"

definition servedBroken :: fetched where
  "servedBroken = Settles 120 (Inr \<lparr> status = 200, json = Settles 150 (Inl SyntaxError) \<rparr>)"

definition servedNever :: fetched where
  "servedNever = Settles 120 (Inr \<lparr> status = 200, json = Pending \<rparr>)"


definition storageCategories :: jsval where
  "storageCategories =
     JObj [(u ''storage'',
            JObj [(u ''name'', JObj [(u ''english'', JStr (u ''Storage''))]),
                  (u ''icon'', JStr [0xD83D, 0xDCBE])])]"

definition networkWithoutTerms :: "jsstring \<Rightarrow> fetched" where
  "networkWithoutTerms url =
     (if url = u ''data/lexicon.json'' then served (JObj [(u ''version'', JNum 1)])
      else if url = u ''data/categories.json'' then served (JObj [(u ''categories'', storageCategories)])
      else served (JObj []))"

definition networkWithoutCategories :: "jsstring \<Rightarrow> fetched" where
  "networkWithoutCategories url =
     (if url = u ''data/lexicon.json'' then served (JObj [(u ''terms'', JArr [cacheTerm, schedulerTerm])])
      else if url = u ''data/categories.json'' then served (JObj [])
      else served JNull)"

definition networkNullLexicon :: "jsstring \<Rightarrow> fetched" where
  "networkNullLexicon url =
     (if url = u ''data/lexicon.json'' then served JNull else served (JObj []))"

definition networkSlowBody :: "jsstring \<Rightarrow> fetched" where
  "networkSlowBody url =
     (if url = u ''data/lexicon.json''
      then servedSlowly (JObj [(u ''terms'', JArr [cacheTerm, schedulerTerm])])
      else served (JObj []))"

definition networkStalledBody :: "jsstring \<Rightarrow> fetched" where
  "networkStalledBody url =
     (if url = u ''data/lexicon.json'' then servedNever
      else if url = u ''data/categories.json'' then servedBroken
      else served (JObj []))"

text \<open>
  A memory with the two terms of the scenario: the term collection at address 0, the two
  terms at 1 and 2, an empty category mapping at 3, and the search text \<open>sched\<close>.
\<close>

definition sampleMemory :: memory where
  "sampleMemory =
     \<lparr> heap = [HArray [HRef 1, HRef 2],
               HObject [(u ''english'', HStr (u ''Cache'')),
                        (u ''khmer'', HStr [0x17B4, 0x1783, 0x17B6, 0x179F]),
                        (u ''category'', HStr (u ''storage''))],
               HObject [(u ''english'', HStr (u ''Scheduler'')),
                        (u ''khmer'', HStr [0x17B4, 0x179F, 0x1788, 0x17C1, 0x178C]),
                        (u ''category'', HStr (u ''compute''))],
               HObject []],
       lexiconDataVar = HRef 0, categoriesDataVar = HRef 3,
       currentFilterVar = u ''all'', currentSearchVar = u ''sched'' \<rparr>"

section \<open>Auxiliary notions for the proofs\<close>

text \<open>A computation returns normally, and its result is truthy exactly when \<open>P\<close> holds.\<close>

definition yields :: "js_error + jsval \<Rightarrow> bool \<Rightarrow> bool" where
  "yields m P = (\<exists>v. m = Inr v \<and> (truthy v \<longleftrightarrow> P))"


text \<open>A computation returns normally.\<close>

definition returns :: "js_error + 'a \<Rightarrow> bool" where
  "returns m = (\<exists>v. m = Inr v)"

text \<open>
  A result on the heap agrees with a result on values: the same exception, or a heap
  value that stands for the value. An operation leaves the memory as it is. An
  operation, run in a memory, returns what agrees with a computation on values.
\<close>

definition agrees :: "hobj list \<Rightarrow> js_error + hval \<Rightarrow> js_error + jsval \<Rightarrow> bool" where
  "agrees h r p =
     (case r of
        Inl e \<Rightarrow> p = Inl e
      | Inr v \<Rightarrow> (case p of Inl e \<Rightarrow> False | Inr j \<Rightarrow> repr h v j))"

definition leaves :: "'a run \<Rightarrow> bool" where
  "leaves f = (\<forall>m. snd (f m) = m)"

definition sim :: "memory \<Rightarrow> hval run \<Rightarrow> js_error + jsval \<Rightarrow> bool" where
  "sim m f p = agrees (heap m) (fst (f m)) p"

section \<open>Basic facts\<close>

lemma u_eq_iff [simp]: "u a = u b \<longleftrightarrow> a = b"
proof -
  have "inj (\<lambda>c::char. (of_nat (of_char c) :: 16 word))"
  proof (rule injI)
    fix c d :: char
    assume "(of_nat (of_char c) :: 16 word) = of_nat (of_char d)"
    then have "unat (of_nat (of_char c) :: 16 word) = unat (of_nat (of_char d) :: 16 word)"
      by simp
    moreover have "(of_char x :: nat) < 2 ^ 16" for x
      by (rule less_trans [OF nat_of_char_less_256]) simp
    ultimately show "c = d"
      by (simp add: unat_of_nat take_bit_nat_eq_self)
  qed
  then show ?thesis
    unfolding u_def by (simp add: inj_map_eq_map)
qed

lemma andThen_Inr [simp]: "andThen (Inr v) f = f v"
  by (simp add: andThen_def)

lemma andThen_Inl [simp]: "andThen (Inl e) f = Inl e"
  by (simp add: andThen_def)

lemma yields_orElse: "yields a P \<Longrightarrow> yields b Q \<Longrightarrow> yields (orElse a b) (P \<or> Q)"
  by (auto simp: yields_def orElse_def)

lemma yields_Inr: "yields (Inr v) (truthy v)"
  by (simp add: yields_def)

lemma array_some_strings:
  "yields (array_some (\<lambda>tag. andThen (call_toLowerCase lower tag) (\<lambda>l. call_includes l q)) (map JStr ts))
          (list_ex (\<lambda>tag. str_includes (lower tag) q) ts)"
  by (induction ts) (auto simp: yields_def call_toLowerCase_def call_includes_def)

lemma those_asStr: "those (map asStr vs) = Some ts \<Longrightarrow> vs = map JStr ts"
proof (induction vs arbitrary: ts)
  case Nil
  then show ?case by simp
next
  case (Cons v vs)
  then show ?case
    by (cases v) (auto split: option.splits)
qed

lemma check_description:
  assumes "optString d = Some od"
  shows "yields (andAlso (Inr d) (andThen (Inr d) (\<lambda>description.
            andThen (call_toLowerCase lower description) (\<lambda>l. call_includes l q))))
         (case od of Some s \<Rightarrow> str_includes (lower s) q | None \<Rightarrow> False)"
  using assms
  by (cases d) (auto simp: yields_def optString_def andAlso_def call_toLowerCase_def call_includes_def split: if_splits)

lemma check_tags:
  assumes "optTags t = Some ot"
  shows "yields (andAlso (Inr t) (andThen (Inr t)
            (call_some (\<lambda>tag. andThen (call_toLowerCase lower tag) (\<lambda>l. call_includes l q)))))
         (case ot of Some ts \<Rightarrow> list_ex (\<lambda>tag. str_includes (lower tag) q) ts | None \<Rightarrow> False)"
proof (cases "truthy t")
  case False
  with assms show ?thesis by (auto simp: yields_def optTags_def andAlso_def)
next
  case True
  with assms obtain vs ts where t: "t = JArr vs" and ts: "those (map asStr vs) = Some ts" "ot = Some ts"
    by (cases t) (auto simp: optTags_def)
  from ts have vs: "vs = map JStr ts" by (simp add: those_asStr)
  show ?thesis
    using array_some_strings [of lower q ts] by (simp add: t vs ts andAlso_def call_some_def)
qed

lemma check_example_english:
  assumes "optExample e = Some oe"
  shows "yields (if nullish e then Inr JUndefined
              else andThen (call_toLowerCase lower e) (\<lambda>l. call_includes l q))
         (case oe of Some s \<Rightarrow> str_includes (lower s) q | None \<Rightarrow> False)"
  using assms
  by (cases e) (auto simp: yields_def optExample_def nullish_def call_toLowerCase_def call_includes_def split: if_splits)

lemma check_example_khmer:
  assumes "optExample k = Some kx"
  shows "yields (if nullish k then Inr JUndefined else call_includes k q)
         (case kx of Some s \<Rightarrow> str_includes s q | None \<Rightarrow> False)"
  using assms
  by (cases k) (auto simp: yields_def optExample_def nullish_def call_includes_def split: if_splits)

lemma truthy_not_nullish: "truthy v \<Longrightarrow> \<not> nullish v"
  by (cases v) (auto simp: nullish_def)

lemma getProp_truthy: "truthy v \<Longrightarrow> getProp v k = Inr (readProp v k)"
  by (simp add: getProp_def truthy_not_nullish)

lemma check_examples:
  assumes "optExamples x = Some ox"
  shows "yields (andAlso (Inr x) (andThen (Inr x) (\<lambda>examples.
            orElse (andThen (getProp examples (u ''english'')) (\<lambda>english.
                      if nullish english then Inr JUndefined
                      else andThen (call_toLowerCase lower english) (\<lambda>l. call_includes l ql)))
                   (andThen (getProp examples (u ''khmer'')) (\<lambda>khmer.
                      if nullish khmer then Inr JUndefined
                      else call_includes khmer q)))))
              (case ox of
                 Some (oe, kx) \<Rightarrow>
                   (case oe of Some s \<Rightarrow> str_includes (lower s) ql | None \<Rightarrow> False)
                   \<or> (case kx of Some s \<Rightarrow> str_includes s q | None \<Rightarrow> False)
               | None \<Rightarrow> False)"
proof (cases "truthy x")
  case False
  with assms show ?thesis by (auto simp: yields_def optExamples_def andAlso_def)
next
  case True
  with assms obtain oe kx where
    oe: "optExample (readProp x (u ''english'')) = Some oe" and
    kx: "optExample (readProp x (u ''khmer'')) = Some kx" and
    ox: "ox = Some (oe, kx)"
    by (auto simp: optExamples_def split: Option.bind_splits)
  show ?thesis
    using yields_orElse [OF check_example_english [OF oe, of lower ql] check_example_khmer [OF kx, of q]] True
    by (simp add: andAlso_def getProp_truthy ox)
qed

lemma viewTerm_fields:
  assumes "viewTerm w = Some t"
  obtains fs where "w = JObj fs"
    and "own fs (u ''english'') = JStr (englishName t)"
    and "own fs (u ''khmer'') = JStr (khmerName t)"
    and "own fs (u ''category'') = categoryKey t"
    and "optString (own fs (u ''description'')) = Some (description t)"
    and "optTags (own fs (u ''tags'')) = Some (tags t)"
    and "optExamples (own fs (u ''examples'')) = Some (examples t)"
proof -
  from assms obtain fs where w: "w = JObj fs"
    by (cases w) (auto simp: viewTerm_def)
  from assms obtain e where e: "asStr (own fs (u ''english'')) = Some e"
    by (cases "asStr (own fs (u ''english''))") (auto simp: viewTerm_def w)
  from assms obtain k where k: "asStr (own fs (u ''khmer'')) = Some k"
    by (cases "asStr (own fs (u ''khmer''))") (auto simp: viewTerm_def w e)
  from assms obtain d where d: "optString (own fs (u ''description'')) = Some d"
    by (cases "optString (own fs (u ''description''))") (auto simp: viewTerm_def w e k)
  from assms obtain tg where tg: "optTags (own fs (u ''tags'')) = Some tg"
    by (cases "optTags (own fs (u ''tags''))") (auto simp: viewTerm_def w e k d)
  from assms obtain x where x: "optExamples (own fs (u ''examples'')) = Some x"
    by (cases "optExamples (own fs (u ''examples''))") (auto simp: viewTerm_def w e k d tg)
  from assms have t: "t = \<lparr> englishName = e, khmerName = k, categoryKey = own fs (u ''category''),
              description = d, tags = tg, examples = x \<rparr>"
    by (simp add: viewTerm_def w e k d tg x)
  have e': "own fs (u ''english'') = JStr e" using e by (cases "own fs (u ''english'')") auto
  have k': "own fs (u ''khmer'') = JStr k" using k by (cases "own fs (u ''khmer'')") auto
  show thesis
    by (rule that [of fs]) (simp_all add: w t e' k' d tg x)
qed

lemma searchMatches_view:
  assumes "viewTerm w = Some t"
  shows "yields (searchMatches lower w q) (fieldChecks_spec lower q t)"
proof -
  from assms obtain fs where w: "w = JObj fs"
    and e: "own fs (u ''english'') = JStr (englishName t)"
    and k: "own fs (u ''khmer'') = JStr (khmerName t)"
    and d: "optString (own fs (u ''description'')) = Some (description t)"
    and tg: "optTags (own fs (u ''tags'')) = Some (tags t)"
    and x: "optExamples (own fs (u ''examples'')) = Some (examples t)"
    by (rule viewTerm_fields)
  have g: "getProp w key = Inr (own fs key)" for key
    by (simp add: w getProp_def nullish_def)
  show ?thesis
    unfolding searchMatches_def Let_def fieldChecks_spec_def g
  proof (intro yields_orElse)
    show "yields (andThen (Inr (own fs (u ''english''))) (\<lambda>english.
             andThen (call_toLowerCase lower english) (\<lambda>l. call_includes l (lower q))))
           (str_includes (lower (englishName t)) (lower q))"
      by (simp add: e yields_def call_toLowerCase_def call_includes_def)
    show "yields (andThen (Inr (own fs (u ''khmer''))) (\<lambda>khmer. call_includes khmer q))
           (str_includes (khmerName t) q)"
      by (simp add: k yields_def call_includes_def)
  qed (rule check_description [OF d] check_tags [OF tg] check_examples [OF x])+
qed

section \<open>Filtering: the query contract\<close>

lemma matchesSearch_view:
  assumes "viewTerm w = Some t"
  shows "yields (matchesSearch lower q w) (textMatches_spec lower q t)"
  using searchMatches_view [OF assms, of lower q]
  by (simp add: matchesSearch_def textMatches_spec_def yields_def)

lemma matchesCategory_read:
  assumes "\<not> nullish w"
  shows "matchesCategory f w = Inr (JBool (f = u ''all'' \<or> readProp w (u ''category'') = JStr f))"
  using assms by (simp add: matchesCategory_def getProp_def)

lemma viewTerm_category:
  assumes "viewTerm w = Some t"
  shows "\<not> nullish w" and "readProp w (u ''category'') = categoryKey t"
  using assms by (auto elim!: viewTerm_fields simp: nullish_def)

lemma filterCallback_view:
  assumes "viewTerm w = Some t"
  shows "yields (filterCallback lower st w)
           (textMatches_spec lower (currentSearch st) t \<and> categoryMatches_spec (currentFilter st) t)"
  using matchesSearch_view [OF assms, of lower "currentSearch st"]
    matchesCategory_read [OF viewTerm_category(1) [OF assms], of "currentFilter st"]
    viewTerm_category(2) [OF assms]
  by (auto simp: filterCallback_def yields_def categoryMatches_spec_def)

lemma array_filter_yields:
  assumes "\<forall>x\<in>set xs. yields (f x) (P x)"
  shows "array_filter f xs = Inr (filter P xs)"
  using assms by (induction xs) (auto simp: yields_def)

lemma filterWords_view:
  assumes "lexiconData st = JArr ws" and "\<forall>w\<in>set ws. viewTerm w \<noteq> None"
  shows "filterWords lower st
         = Inr (filter (visible_spec lower (currentFilter st) (currentSearch st)) ws)"
proof -
  have "yields (filterCallback lower st w) (visible_spec lower (currentFilter st) (currentSearch st) w)"
    if "w \<in> set ws" for w
  proof -
    from that assms(2) obtain t where t: "viewTerm w = Some t" by auto
    from filterCallback_view [OF t, of lower st] show ?thesis
      by (simp add: visible_spec_def t conj_commute)
  qed
  then show ?thesis
    by (simp add: filterWords_def assms(1) array_filter_yields)
qed

text \<open>
  C1. For a term collection of typed terms and every query state, \<open>filterWords\<close> returns
  exactly the terms that satisfy both the category predicate and the text predicate, in
  load order: the result is the input list filtered by the two predicates, hence a
  subsequence of it (nothing reordered, duplicated or added).
\<close>

theorem filterWords_exact_subsequence:
  assumes "lexiconData st = JArr ws" and "\<forall>w\<in>set ws. viewTerm w \<noteq> None"
  shows "filterWords lower st
           = Inr (filter (visible_spec lower (currentFilter st) (currentSearch st)) ws)
         \<and> subseq (filter (visible_spec lower (currentFilter st) (currentSearch st)) ws) ws"
  using filterWords_view [OF assms] by simp

lemmas eval_simps =
  scenario_def initialApp_def cacheTerm_def schedulerTerm_def asciiLower_def
  visible_spec_def viewTerm_def own_def optString_def optTags_def optExamples_def
  categoryMatches_spec_def textMatches_spec_def fieldChecks_spec_def str_includes_def
  sublist_code u_def

theorem filterWords_exact_subsequence_witness:
  "filterWords asciiLower (scenario (u ''storage'') []) = Inr [cacheTerm]
   \<and> filterWords asciiLower (scenario (u ''all'') (u ''sched'')) = Inr [schedulerTerm]
   \<and> filterWords asciiLower (scenario (u ''all'') []) = Inr [cacheTerm, schedulerTerm]"
proof -
  have ws: "lexiconData (scenario f q) = JArr [cacheTerm, schedulerTerm]" for f q
    by (simp add: scenario_def)
  have wt: "\<forall>w\<in>set [cacheTerm, schedulerTerm]. viewTerm w \<noteq> None"
    by (simp add: eval_simps)
  have f: "currentFilter (scenario f q) = f" "currentSearch (scenario f q) = q" for f q
    by (simp_all add: scenario_def)
  have v1: "filter (visible_spec asciiLower (u ''storage'') []) [cacheTerm, schedulerTerm] = [cacheTerm]"
    by (simp add: eval_simps)
  have v2: "filter (visible_spec asciiLower (u ''all'') (u ''sched'')) [cacheTerm, schedulerTerm] = [schedulerTerm]"
    by (simp add: eval_simps)
  have v3: "filter (visible_spec asciiLower (u ''all'') []) [cacheTerm, schedulerTerm] = [cacheTerm, schedulerTerm]"
    by (simp add: eval_simps)
  show ?thesis
    using filterWords_exact_subsequence [OF ws wt, of asciiLower "u ''storage''" "[]"]
      filterWords_exact_subsequence [OF ws wt, of asciiLower "u ''all''" "u ''sched''"]
      filterWords_exact_subsequence [OF ws wt, of asciiLower "u ''all''" "[]"]
    by (simp only: f v1 v2 v3)
qed

lemma filterWords_empty_search:
  assumes "lexiconData st = JArr ws" and "currentSearch st = []"
  shows "filterWords lower st = array_filter (matchesCategory (currentFilter st)) ws"
proof -
  have "filterCallback lower st = matchesCategory (currentFilter st)"
    by (rule ext) (simp add: filterCallback_def matchesSearch_def assms(2) andThen_def split: sum.splits)
  then show ?thesis
    by (simp add: filterWords_def assms(1))
qed

text \<open>
  C2. For a typed term and a non-empty search text, the text predicate of the filter
  callback holds exactly when one of the five field checks succeeds (English name and
  description and tags and English example after case folding, Khmer name and Khmer
  example as they are). With an empty search text it holds for every term, and the
  result of \<open>filterWords\<close> is the collection filtered by category alone.
\<close>

theorem matchesSearch_five_checks:
  assumes "viewTerm w = Some t"
  shows "(\<exists>v. matchesSearch lower searchText w = Inr v
            \<and> (searchText \<noteq> [] \<longrightarrow> (truthy v \<longleftrightarrow> fieldChecks_spec lower searchText t))
            \<and> (searchText = [] \<longrightarrow> truthy v))
         \<and> (lexiconData st = JArr ws \<and> currentSearch st = [] \<longrightarrow>
              filterWords lower st = array_filter (matchesCategory (currentFilter st)) ws)"
  using matchesSearch_view [OF assms, of lower searchText] filterWords_empty_search [of st ws lower]
  by (auto simp: yields_def textMatches_spec_def)

theorem matchesSearch_five_checks_witness:
  "viewTerm apiTerm \<noteq> None
   \<and> (\<exists>v. matchesSearch asciiLower (u ''API'') apiTerm = Inr v \<and> truthy v)
   \<and> (\<exists>v. matchesSearch asciiLower (u ''http'') apiTerm = Inr v \<and> truthy v)
   \<and> (\<exists>v. matchesSearch asciiLower [0x1783, 0x17B6] apiTerm = Inr v \<and> truthy v)
   \<and> (\<exists>v. matchesSearch asciiLower (u ''cache'') apiTerm = Inr v \<and> \<not> truthy v)
   \<and> (\<exists>v. matchesSearch asciiLower [] apiTerm = Inr v \<and> truthy v)
   \<and> filterWords asciiLower (scenario (u ''compute'') []) = Inr [schedulerTerm]"
proof -
  obtain t where t: "viewTerm apiTerm = Some t"
    "t = \<lparr> englishName = u ''api gateway'', khmerName = [0x17B4, 0x1783, 0x17B6, 0x179F],
           categoryKey = JStr (u ''network''), description = None,
           tags = Some [u ''HTTP'', u ''proxy''], examples = None \<rparr>"
    by (simp add: apiTerm_def viewTerm_def own_def optString_def optTags_def optExamples_def)
  have c: "fieldChecks_spec asciiLower (u ''API'') t" "fieldChecks_spec asciiLower (u ''http'') t"
    "fieldChecks_spec asciiLower [0x1783, 0x17B6] t" "\<not> fieldChecks_spec asciiLower (u ''cache'') t"
    by (simp_all add: t(2) fieldChecks_spec_def asciiLower_def str_includes_def sublist_code u_def)
  have ne: "u ''API'' \<noteq> []" "u ''http'' \<noteq> []" "u ''cache'' \<noteq> []"
    by (simp_all add: u_def)
  have s: "lexiconData (scenario (u ''compute'') []) = JArr [cacheTerm, schedulerTerm]
           \<and> currentSearch (scenario (u ''compute'') []) = []"
    by (simp add: scenario_def)
  have r: "array_filter (matchesCategory (currentFilter (scenario (u ''compute'') [])))
             [cacheTerm, schedulerTerm] = Inr [schedulerTerm]"
    by (simp add: scenario_def matchesCategory_def getProp_def nullish_def cacheTerm_def
        schedulerTerm_def own_def)
  show ?thesis
    using matchesSearch_five_checks [OF t(1), of asciiLower "u ''API''" "scenario (u ''compute'') []" "[cacheTerm, schedulerTerm]"]
      matchesSearch_five_checks [OF t(1), of asciiLower "u ''http''" "scenario (u ''compute'') []" "[cacheTerm, schedulerTerm]"]
      matchesSearch_five_checks [OF t(1), of asciiLower "[0x1783, 0x17B6]" "scenario (u ''compute'') []" "[cacheTerm, schedulerTerm]"]
      matchesSearch_five_checks [OF t(1), of asciiLower "u ''cache''" "scenario (u ''compute'') []" "[cacheTerm, schedulerTerm]"]
      matchesSearch_five_checks [OF t(1), of asciiLower "[]" "scenario (u ''compute'') []" "[cacheTerm, schedulerTerm]"]
      c ne s r t(1)
    by auto
qed

text \<open>
  C3. The category predicate holds exactly when the selection is \<open>all\<close> or the term's
  category key is the same string as the selection. So a selection other than \<open>all\<close>
  that is no term's category key gives the empty result, and every term of a result
  under a selection other than \<open>all\<close> has the selection as its category key.
\<close>

theorem matchesCategory_exact:
  assumes "lexiconData st = JArr ws" and "\<forall>w\<in>set ws. viewTerm w \<noteq> None"
  shows "(\<forall>w\<in>set ws. matchesCategory (currentFilter st) w
             = Inr (JBool (currentFilter st = u ''all''
                           \<or> readProp w (u ''category'') = JStr (currentFilter st))))
         \<and> (currentFilter st \<noteq> u ''all''
              \<and> (\<forall>w\<in>set ws. readProp w (u ''category'') \<noteq> JStr (currentFilter st))
              \<longrightarrow> filterWords lower st = Inr [])
         \<and> (currentFilter st \<noteq> u ''all'' \<longrightarrow>
              (\<exists>rs. filterWords lower st = Inr rs
                 \<and> (\<forall>r\<in>set rs. readProp r (u ''category'') = JStr (currentFilter st))))"
proof (intro conjI ballI impI)
  fix w assume "w \<in> set ws"
  with assms(2) obtain t where "viewTerm w = Some t" by auto
  then show "matchesCategory (currentFilter st) w
             = Inr (JBool (currentFilter st = u ''all''
                           \<or> readProp w (u ''category'') = JStr (currentFilter st)))"
    by (simp add: matchesCategory_read viewTerm_category(1))
next
  assume a: "currentFilter st \<noteq> u ''all''
             \<and> (\<forall>w\<in>set ws. readProp w (u ''category'') \<noteq> JStr (currentFilter st))"
  have "\<not> visible_spec lower (currentFilter st) (currentSearch st) w" if "w \<in> set ws" for w
    using that a
    by (auto simp: visible_spec_def categoryMatches_spec_def viewTerm_category(2) split: option.splits)
  then show "filterWords lower st = Inr []"
    by (simp add: filterWords_view [OF assms])
next
  assume a: "currentFilter st \<noteq> u ''all''"
  have "readProp r (u ''category'') = JStr (currentFilter st)"
    if "visible_spec lower (currentFilter st) (currentSearch st) r" for r
    using that a
    by (auto simp: visible_spec_def categoryMatches_spec_def viewTerm_category(2) split: option.splits)
  then show "\<exists>rs. filterWords lower st = Inr rs
                 \<and> (\<forall>r\<in>set rs. readProp r (u ''category'') = JStr (currentFilter st))"
    by (simp add: filterWords_view [OF assms])
qed

theorem matchesCategory_exact_witness:
  "viewTerm cacheTerm \<noteq> None \<and> viewTerm schedulerTerm \<noteq> None
   \<and> matchesCategory (u ''storage'') cacheTerm = Inr (JBool True)
   \<and> matchesCategory (u ''storage'') schedulerTerm = Inr (JBool False)
   \<and> matchesCategory (u ''all'') schedulerTerm = Inr (JBool True)
   \<and> filterWords asciiLower (scenario (u ''Storage'') []) = Inr []
   \<and> (\<exists>rs. filterWords asciiLower (scenario (u ''storage'') []) = Inr rs
         \<and> (\<forall>r\<in>set rs. readProp r (u ''category'') = JStr (u ''storage'')))"
proof -
  have ws: "lexiconData (scenario f q) = JArr [cacheTerm, schedulerTerm]" for f q
    by (simp add: scenario_def)
  have wt: "\<forall>w\<in>set [cacheTerm, schedulerTerm]. viewTerm w \<noteq> None"
    by (simp add: eval_simps)
  have f: "currentFilter (scenario f q) = f" for f q
    by (simp add: scenario_def)
  have c: "readProp cacheTerm (u ''category'') = JStr (u ''storage'')"
    "readProp schedulerTerm (u ''category'') = JStr (u ''compute'')"
    by (simp_all add: cacheTerm_def schedulerTerm_def own_def)
  show ?thesis
    using matchesCategory_exact [OF ws wt, of "u ''storage''" "[]" asciiLower]
      matchesCategory_exact [OF ws wt, of "u ''all''" "[]" asciiLower]
      matchesCategory_exact [OF ws wt, of "u ''Storage''" "[]" asciiLower]
      wt
    by (simp add: f c)
qed

text \<open>The five checks of the typed view, read off the JSON value of the term.\<close>

lemma asStr_Some: "asStr v = Some s \<longleftrightarrow> v = JStr s"
  by (cases v) auto

lemma description_read:
  assumes "optString v = Some d"
  shows "(case d of Some s \<Rightarrow> str_includes (lower s) lq | None \<Rightarrow> False)
         \<longleftrightarrow> (\<exists>s. v = JStr s \<and> s \<noteq> [] \<and> str_includes (lower s) lq)"
  using assms
  by (cases v) (auto simp: optString_def split: if_splits)

lemma tags_read:
  assumes "optTags v = Some tg"
  shows "(case tg of Some ts \<Rightarrow> list_ex (\<lambda>tag. str_includes (lower tag) lq) ts | None \<Rightarrow> False)
         \<longleftrightarrow> (\<exists>ts s. v = JArr ts \<and> JStr s \<in> set ts \<and> str_includes (lower s) lq)"
  using assms
  by (cases v) (fastforce simp: optTags_def list_ex_iff dest!: those_asStr split: if_splits)+

lemma example_read:
  assumes "optExample v = Some e"
  shows "(case e of Some s \<Rightarrow> P s | None \<Rightarrow> False) \<longleftrightarrow> (\<exists>s. v = JStr s \<and> P s)"
  using assms
  by (cases v) (auto simp: optExample_def nullish_def split: if_splits)

lemma examples_read:
  assumes "optExamples v = Some x"
  shows "(case x of
            Some (englishExample, khmerExample) \<Rightarrow>
              (case englishExample of Some s \<Rightarrow> P s | None \<Rightarrow> False)
              \<or> (case khmerExample of Some s \<Rightarrow> Q s | None \<Rightarrow> False)
          | None \<Rightarrow> False)
         \<longleftrightarrow> (truthy v \<and> ((\<exists>s. readProp v (u ''english'') = JStr s \<and> P s)
                          \<or> (\<exists>s. readProp v (u ''khmer'') = JStr s \<and> Q s)))"
proof (cases "truthy v")
  case False
  with assms show ?thesis by (simp add: optExamples_def)
next
  case True
  with assms obtain e k where e: "optExample (readProp v (u ''english'')) = Some e"
    and k: "optExample (readProp v (u ''khmer'')) = Some k" and x: "x = Some (e, k)"
    by (auto simp: optExamples_def split: bind_splits)
  show ?thesis
    using True example_read [OF e, of P] example_read [OF k, of Q]
    by (simp add: x)
qed

lemma fieldChecks_read:
  assumes "viewTerm w = Some t"
  shows "fieldChecks_spec lower q t \<longleftrightarrow>
           (\<exists>s. readProp w (u ''english'') = JStr s \<and> str_includes (lower s) (lower q))
         \<or> (\<exists>s. readProp w (u ''khmer'') = JStr s \<and> str_includes s q)
         \<or> (\<exists>s. readProp w (u ''description'') = JStr s \<and> s \<noteq> []
                \<and> str_includes (lower s) (lower q))
         \<or> (\<exists>ts s. readProp w (u ''tags'') = JArr ts \<and> JStr s \<in> set ts
                \<and> str_includes (lower s) (lower q))
         \<or> (truthy (readProp w (u ''examples''))
             \<and> ((\<exists>s. readProp (readProp w (u ''examples'')) (u ''english'') = JStr s
                     \<and> str_includes (lower s) (lower q))
                \<or> (\<exists>s. readProp (readProp w (u ''examples'')) (u ''khmer'') = JStr s
                       \<and> str_includes s q)))"
proof -
  from assms obtain fs where w: "w = JObj fs"
    and e: "own fs (u ''english'') = JStr (englishName t)"
    and k: "own fs (u ''khmer'') = JStr (khmerName t)"
    and d: "optString (own fs (u ''description'')) = Some (description t)"
    and tg: "optTags (own fs (u ''tags'')) = Some (tags t)"
    and x: "optExamples (own fs (u ''examples'')) = Some (examples t)"
    by (rule viewTerm_fields)
  show ?thesis
    unfolding fieldChecks_spec_def w readProp.simps e k
      description_read [OF d] tags_read [OF tg]
      examples_read [OF x, of "\<lambda>s. str_includes (lower s) (lower q)" "\<lambda>s. str_includes s q"]
    by simp
qed

text \<open>
  C4. A present optional field of the wrong type makes the search throw: with a numeric
  description and a search text that the names do not contain, \<open>filterWords\<close> ends in a
  \<open>TypeError\<close>, although both names are strings.
\<close>

theorem filterWords_malformed_description_counterexample:
  "readProp malformedTerm (u ''english'') = JStr (u ''Cache'')
   \<and> readProp malformedTerm (u ''khmer'') = JStr [0x17B4, 0x1783, 0x17B6, 0x179F]
   \<and> filterWords asciiLower ((initialApp fullPage) \<lparr> lexiconData := JArr [malformedTerm],
                                                      currentSearch := u ''disk'' \<rparr>)
       = Inl TypeError"
  by (simp add: malformedTerm_def own_def initialApp_def filterWords_def filterCallback_def
      matchesSearch_def searchMatches_def getProp_def nullish_def call_toLowerCase_def
      call_includes_def orElse_def andAlso_def asciiLower_def str_includes_def sublist_code u_def)

text \<open>
  C4, as amended. When every term is typed (names are strings; description, tags,
  examples and the two example sub-fields are each absent or of their type),
  \<open>filterWords\<close> returns for every search text and selection, and \<open>searchMatches\<close>
  returns for every term and is truthy exactly when one of the checks on a field that
  is there succeeds: the two names, a non-empty string description, a tag of the tag
  array, the English or Khmer example of a truthy \<open>examples\<close> value. A field that is
  absent (no string, no array, a falsy \<open>examples\<close>, no string sub-field) adds no match,
  whatever the other fields are.
\<close>

theorem filterWords_total_on_typed_terms:
  assumes "lexiconData st = JArr ws" and "\<forall>w\<in>set ws. viewTerm w \<noteq> None"
  shows "(\<exists>rs. filterWords lower st = Inr rs)
         \<and> (\<forall>w\<in>set ws.
              \<exists>v. searchMatches lower w q = Inr v
                \<and> (truthy v \<longleftrightarrow>
                       (\<exists>s. readProp w (u ''english'') = JStr s \<and> str_includes (lower s) (lower q))
                     \<or> (\<exists>s. readProp w (u ''khmer'') = JStr s \<and> str_includes s q)
                     \<or> (\<exists>s. readProp w (u ''description'') = JStr s \<and> s \<noteq> []
                            \<and> str_includes (lower s) (lower q))
                     \<or> (\<exists>ts s. readProp w (u ''tags'') = JArr ts \<and> JStr s \<in> set ts
                            \<and> str_includes (lower s) (lower q))
                     \<or> (truthy (readProp w (u ''examples''))
                         \<and> ((\<exists>s. readProp (readProp w (u ''examples'')) (u ''english'') = JStr s
                                 \<and> str_includes (lower s) (lower q))
                            \<or> (\<exists>s. readProp (readProp w (u ''examples'')) (u ''khmer'') = JStr s
                                   \<and> str_includes s q)))))"
proof (intro conjI ballI)
  show "\<exists>rs. filterWords lower st = Inr rs"
    by (simp add: filterWords_view [OF assms])
next
  fix w
  assume "w \<in> set ws"
  with assms(2) obtain t where t: "viewTerm w = Some t"
    by auto
  from searchMatches_view [OF t, of lower q]
  obtain v where v: "searchMatches lower w q = Inr v" "truthy v \<longleftrightarrow> fieldChecks_spec lower q t"
    by (auto simp: yields_def)
  show "\<exists>v. searchMatches lower w q = Inr v
                \<and> (truthy v \<longleftrightarrow>
                       (\<exists>s. readProp w (u ''english'') = JStr s \<and> str_includes (lower s) (lower q))
                     \<or> (\<exists>s. readProp w (u ''khmer'') = JStr s \<and> str_includes s q)
                     \<or> (\<exists>s. readProp w (u ''description'') = JStr s \<and> s \<noteq> []
                            \<and> str_includes (lower s) (lower q))
                     \<or> (\<exists>ts s. readProp w (u ''tags'') = JArr ts \<and> JStr s \<in> set ts
                            \<and> str_includes (lower s) (lower q))
                     \<or> (truthy (readProp w (u ''examples''))
                         \<and> ((\<exists>s. readProp (readProp w (u ''examples'')) (u ''english'') = JStr s
                                 \<and> str_includes (lower s) (lower q))
                            \<or> (\<exists>s. readProp (readProp w (u ''examples'')) (u ''khmer'') = JStr s
                                   \<and> str_includes s q))))"
    unfolding fieldChecks_read [OF t, symmetric]
    using v by blast
qed

theorem filterWords_total_on_typed_terms_witness:
  "viewTerm indexTerm \<noteq> None
   \<and> readProp indexTerm (u ''tags'') = JUndefined
   \<and> readProp (readProp indexTerm (u ''examples'')) (u ''khmer'') = JUndefined
   \<and> (\<exists>rs. filterWords asciiLower ((initialApp fullPage) \<lparr> lexiconData := JArr [indexTerm],
                                                            currentSearch := u ''disk'' \<rparr>) = Inr rs)
   \<and> (\<exists>v. searchMatches asciiLower indexTerm (u ''disk'') = Inr v \<and> \<not> truthy v)
   \<and> (\<exists>v. searchMatches asciiLower indexTerm (u ''LOOKUP'') = Inr v \<and> truthy v)
   \<and> (\<exists>v. searchMatches asciiLower indexTerm (u ''create an'') = Inr v \<and> truthy v)"
proof -
  define st where "st = (initialApp fullPage) \<lparr> lexiconData := JArr [indexTerm],
                                                 currentSearch := u ''disk'' \<rparr>"
  have ws: "lexiconData st = JArr [indexTerm]"
    by (simp add: st_def)
  have wt: "\<forall>w\<in>set [indexTerm]. viewTerm w \<noteq> None"
    by (simp add: indexTerm_def viewTerm_def own_def optString_def optTags_def optExamples_def
        optExample_def nullish_def u_def)
  have r: "readProp indexTerm (u ''english'') = JStr (u ''Index'')"
    "readProp indexTerm (u ''khmer'') = JStr [0x17B4, 0x1783, 0x17B6, 0x179F]"
    "readProp indexTerm (u ''description'') = JStr (u ''Speeds up lookups'')"
    "readProp indexTerm (u ''tags'') = JUndefined"
    "readProp indexTerm (u ''examples'') = JObj [(u ''english'', JStr (u ''Create an index''))]"
    "own [(u ''english'', JStr (u ''Create an index''))] (u ''english'')
       = JStr (u ''Create an index'')"
    "own [(u ''english'', JStr (u ''Create an index''))] (u ''khmer'') = JUndefined"
    by (simp_all add: indexTerm_def own_def)
  have i: "\<not> str_includes (asciiLower (u ''Index'')) (asciiLower (u ''disk''))"
    "\<not> str_includes [0x17B4, 0x1783, 0x17B6, 0x179F] (u ''disk'')"
    "\<not> str_includes (asciiLower (u ''Speeds up lookups'')) (asciiLower (u ''disk''))"
    "\<not> str_includes (asciiLower (u ''Create an index'')) (asciiLower (u ''disk''))"
    "str_includes (asciiLower (u ''Speeds up lookups'')) (asciiLower (u ''LOOKUP''))"
    "str_includes (asciiLower (u ''Create an index'')) (asciiLower (u ''create an''))"
    "u ''Speeds up lookups'' \<noteq> []"
    by (simp_all add: asciiLower_def str_includes_def sublist_code u_def)
  have 1: "\<exists>rs. filterWords asciiLower st = Inr rs"
    and 2: "\<exists>v. searchMatches asciiLower indexTerm (u ''disk'') = Inr v \<and> \<not> truthy v"
    using filterWords_total_on_typed_terms [OF ws wt, of asciiLower "u ''disk''"]
    by (auto simp: r i(1-4))
  have 3: "\<exists>v. searchMatches asciiLower indexTerm (u ''LOOKUP'') = Inr v \<and> truthy v"
    using filterWords_total_on_typed_terms [OF ws wt, of asciiLower "u ''LOOKUP''"]
    by (auto simp: r i(5,7))
  have 4: "\<exists>v. searchMatches asciiLower indexTerm (u ''create an'') = Inr v \<and> truthy v"
    using filterWords_total_on_typed_terms [OF ws wt, of asciiLower "u ''create an''"]
    by (auto simp: r i(6))
  from wt r 1 2 3 4 show ?thesis
    unfolding st_def by simp
qed


section \<open>Rendering the result\<close>

lemma template_two_literals:
  assumes "template (Inr a # Inr b # ps) = Inr s"
  shows "\<exists>r. s = a @ b @ r"
  using assms
  by (auto simp: template_def andThen_def split: sum.splits)

lemma createWordCard_prefix:
  assumes "createWordCard cats w = Inr s"
  shows "\<exists>r. s = u ''\<newline>'' @ u ''        <div class=\"word-card slide-up\">\<newline>'' @ r"
  using assms
  unfolding createWordCard_def Let_def lit_def
  by (auto simp: andThen_def split: sum.splits if_splits dest: template_two_literals)

lemma noResultsHTML_21: "noResultsHTML ! 21 = 110"
  by (simp add: noResultsHTML_def u_def)

lemma card_21:
  "(u ''\<newline>'' @ u ''        <div class=\"word-card slide-up\">\<newline>'' @ r) ! 21 = 119"
  by (simp add: u_def)

lemma cards_not_noResults:
  assumes "sequence (map (createWordCard cats) ws) = Inr cards" and "ws \<noteq> []"
  shows "concat cards \<noteq> noResultsHTML"
proof -
  from assms obtain w ws' where ws: "ws = w # ws'" by (cases ws) auto
  with assms(1) obtain c cs where c: "createWordCard cats w = Inr c" and cards: "cards = c # cs"
    by (auto simp: andThen_def split: sum.splits)
  from createWordCard_prefix [OF c] obtain r where
    "c = u ''\<newline>'' @ u ''        <div class=\"word-card slide-up\">\<newline>'' @ r" by blast
  then have "concat cards ! 21 = 119"
    using card_21 [of "r @ concat cs"] by (simp add: cards)
  with noResultsHTML_21 show ?thesis by auto
qed

text \<open>
  C7. When both elements exist and the filter returns, \<open>renderWords\<close> sets the results
  count to the number of matches followed by \<open>terms found\<close>. With no match it writes the
  no-results markup; with matches it writes the cards, which differ from the no-results
  markup, or, when a card throws, leaves the grid as it was: never both.
\<close>

theorem renderWords_count_and_branch:
  assumes "wordGrid (elements st) = Some g" and "resultsCount (elements st) = Some c"
    and "filterWords lower st = Inr ws"
  shows "resultsCount (elements (snd (renderWords lower st)))
           = Some (showNat (length ws) @ u '' terms found'')
         \<and> (ws = [] \<longrightarrow>
               fst (renderWords lower st) = None
               \<and> wordGrid (elements (snd (renderWords lower st))) = Some noResultsHTML)
         \<and> (ws \<noteq> [] \<and> fst (renderWords lower st) = None \<longrightarrow>
               (\<exists>cards. sequence (map (createWordCard (categoriesData st)) ws) = Inr cards
                  \<and> wordGrid (elements (snd (renderWords lower st))) = Some (concat cards)
                  \<and> concat cards \<noteq> noResultsHTML))
         \<and> (ws \<noteq> [] \<and> fst (renderWords lower st) \<noteq> None \<longrightarrow>
               wordGrid (elements (snd (renderWords lower st))) = Some g)"
proof (cases "ws = []")
  case True
  with assms show ?thesis
    by (simp add: renderWords_def renderNoResults_def)
next
  case False
  let ?st = "st \<lparr> elements := (elements st) \<lparr> resultsCount := Some (showNat (length ws) @ u '' terms found'') \<rparr> \<rparr>"
  have r: "renderWords lower st = renderWordCards ws ?st"
    using assms False by (simp add: renderWords_def)
  show ?thesis
  proof (cases "sequence (map (createWordCard (categoriesData st)) ws)")
    case (Inl e)
    then show ?thesis
      using False assms by (simp add: r renderWordCards_def)
  next
    case (Inr cards)
    then show ?thesis
      using False assms cards_not_noResults [OF Inr False] by (simp add: r renderWordCards_def)
  qed
qed

lemma showNat_digit: "n < 10 \<Longrightarrow> showNat n = [48 + of_nat n]"
  by (simp add: showNat.simps)

theorem renderWords_count_and_branch_witness:
  "filterWords asciiLower (scenario (u ''all'') []) = Inr [cacheTerm, schedulerTerm]
   \<and> resultsCount (elements (snd (renderWords asciiLower (scenario (u ''all'') [])))) = Some (u ''2 terms found'')
   \<and> fst (renderWords asciiLower (scenario (u ''all'') [])) = None
   \<and> wordGrid (elements (snd (renderWords asciiLower (scenario (u ''all'') [])))) \<noteq> Some noResultsHTML
   \<and> filterWords asciiLower (scenario (u ''Storage'') []) = Inr []
   \<and> resultsCount (elements (snd (renderWords asciiLower (scenario (u ''Storage'') [])))) = Some (u ''0 terms found'')
   \<and> wordGrid (elements (snd (renderWords asciiLower (scenario (u ''Storage'') [])))) = Some noResultsHTML"
proof -
  have e: "wordGrid (elements (scenario f q)) = Some []" "resultsCount (elements (scenario f q)) = Some []"
    "categoriesData (scenario f q) = JObj []" for f q
    by (simp_all add: scenario_def initialApp_def fullPage_def)
  have ws: "lexiconData (scenario f q) = JArr [cacheTerm, schedulerTerm]"
    "currentFilter (scenario f q) = f" "currentSearch (scenario f q) = q" for f q
    by (simp_all add: scenario_def)
  have wt: "\<forall>w\<in>set [cacheTerm, schedulerTerm]. viewTerm w \<noteq> None"
    by (simp add: eval_simps)
  have v: "filter (visible_spec asciiLower (u ''all'') []) [cacheTerm, schedulerTerm]
             = [cacheTerm, schedulerTerm]"
    "filter (visible_spec asciiLower (u ''Storage'') []) [cacheTerm, schedulerTerm] = []"
    by (simp_all add: eval_simps)
  have f1: "filterWords asciiLower (scenario (u ''all'') []) = Inr [cacheTerm, schedulerTerm]"
    unfolding filterWords_view [OF ws(1) wt] ws v by (rule refl)
  have f2: "filterWords asciiLower (scenario (u ''Storage'') []) = Inr []"
    unfolding filterWords_view [OF ws(1) wt] ws v by (rule refl)
  have n: "showNat (Suc (Suc 0)) @ u '' terms found'' = u ''2 terms found''"
    "showNat 0 @ u '' terms found'' = u ''0 terms found''"
    by (simp_all add: showNat_digit u_def)
  have ok1: "fst (renderWords asciiLower (scenario (u ''all'') [])) = None"
    by (simp add: renderWords_def e f1 renderWordCards_def createWordCard_def cacheTerm_def
        schedulerTerm_def getProp_def nullish_def own_def lookupKey_def inherited_def
        objectPrototypeMethods_def jsOr_def template_def lit_def escapeHtml_def
        renderExamples_def renderTags_def renderReference_def)
  show ?thesis
    using renderWords_count_and_branch [OF e(1) e(2) f1] renderWords_count_and_branch [OF e(1) e(2) f2]
      f1 f2 ok1
    by (auto simp: n)
qed

section \<open>Filtering on the heap\<close>

lemma leavesD: "leaves f \<Longrightarrow> f m = (r, m') \<Longrightarrow> m' = m"
  by (metis leaves_def snd_conv)

lemma leaves_result [simp]: "leaves (result v)"
  by (simp add: leaves_def result_def)

lemma leaves_readVar [simp]: "leaves (readVar x)"
  by (simp add: leaves_def readVar_def)

lemma leaves_getPropH [simp]: "leaves (getPropH v k)"
  by (simp add: leaves_def getPropH_def split: hval.splits option.splits hobj.splits)

lemma leaves_call_toLowerCaseH [simp]: "leaves (call_toLowerCaseH lower v)"
  by (simp add: leaves_def call_toLowerCaseH_def split: hval.splits)

lemma leaves_call_includesH [simp]: "leaves (call_includesH v x)"
  by (simp add: leaves_def call_includesH_def split: hval.splits option.splits hobj.splits)

lemma leaves_andThenH: "leaves f \<Longrightarrow> (\<And>v. leaves (g v)) \<Longrightarrow> leaves (andThenH f g)"
  unfolding leaves_def andThenH_def
  by (auto split: prod.splits sum.splits) (metis snd_conv)+

lemma leaves_orElseH: "leaves a \<Longrightarrow> leaves b \<Longrightarrow> leaves (orElseH a b)"
  unfolding leaves_def orElseH_def
  by (auto split: prod.splits sum.splits) (metis snd_conv)+

lemma leaves_andAlsoH: "leaves a \<Longrightarrow> leaves b \<Longrightarrow> leaves (andAlsoH a b)"
  unfolding leaves_def andAlsoH_def
  by (auto split: prod.splits sum.splits) (metis snd_conv)+

lemma leaves_if: "leaves a \<Longrightarrow> leaves b \<Longrightarrow> leaves (if c then a else b)"
  by simp

lemma someFrom_leaves:
  assumes "\<And>x. leaves (f x)"
  shows "snd (someFrom f a k n m) = m"
proof (induction n arbitrary: k)
  case 0
  then show ?case by simp
next
  case (Suc n)
  show ?case
  proof (cases "deref m a")
    case None
    then show ?thesis by (simp add: Suc)
  next
    case (Some ob)
    show ?thesis
    proof (cases ob)
      case (HObject fs)
      with Some show ?thesis by (simp add: Suc)
    next
      case (HArray xs)
      show ?thesis
      proof (cases "k < length xs")
        case False
        with Some HArray show ?thesis by (simp add: Suc)
      next
        case True
        obtain r m' where c: "f (xs ! k) m = (r, m')" by (cases "f (xs ! k) m")
        with leavesD [OF assms] have m': "m' = m" by blast
        show ?thesis
          using Some HArray True c m' by (cases r) (simp_all add: Suc)
      qed
    qed
  qed
qed

lemma leaves_call_someH: "(\<And>x. leaves (f x)) \<Longrightarrow> leaves (call_someH f v)"
  by (simp add: leaves_def call_someH_def someFrom_leaves split: hval.splits option.splits hobj.splits)

lemma filterFrom_leaves:
  assumes "\<And>x. leaves (f x)"
  shows "snd (filterFrom f a k n kept m) = m"
proof (induction n arbitrary: k kept)
  case 0
  then show ?case by simp
next
  case (Suc n)
  show ?case
  proof (cases "deref m a")
    case None
    then show ?thesis by (simp add: Suc)
  next
    case (Some ob)
    show ?thesis
    proof (cases ob)
      case (HObject fs)
      with Some show ?thesis by (simp add: Suc)
    next
      case (HArray xs)
      show ?thesis
      proof (cases "k < length xs")
        case False
        with Some HArray show ?thesis by (simp add: Suc)
      next
        case True
        obtain r m' where c: "f (xs ! k) m = (r, m')" by (cases "f (xs ! k) m")
        with leavesD [OF assms] have m': "m' = m" by blast
        show ?thesis
          using Some HArray True c m' by (cases r) (simp_all add: Suc)
      qed
    qed
  qed
qed

lemma leaves_searchMatchesH [simp]: "leaves (searchMatchesH lower word searchTerm)"
  unfolding searchMatchesH_def Let_def
  by (intro leaves_orElseH leaves_andAlsoH leaves_andThenH leaves_call_someH leaves_if
      leaves_getPropH leaves_call_toLowerCaseH leaves_call_includesH leaves_result)

lemma leaves_matchesSearchH [simp]: "leaves (matchesSearchH lower word)"
  unfolding matchesSearchH_def
  by (intro leaves_andThenH leaves_if leaves_readVar leaves_result leaves_searchMatchesH)

lemma leaves_matchesCategoryH [simp]: "leaves (matchesCategoryH word)"
  unfolding matchesCategoryH_def
  by (intro leaves_andThenH leaves_if leaves_readVar leaves_result leaves_getPropH)

lemma leaves_filterCallbackH [simp]: "leaves (filterCallbackH lower word)"
  unfolding filterCallbackH_def
  by (intro leaves_andThenH leaves_result leaves_matchesSearchH leaves_matchesCategoryH)

section \<open>A heap value and the JSON value it stands for\<close>

lemma reprList_iff: "reprList h xs js \<longleftrightarrow> list_all2 (repr h) xs js"
proof (induction xs arbitrary: js)
  case Nil
  show ?case by (auto simp: reprList.simps [of h "[]"])
next
  case (Cons x xs)
  show ?case
    by (auto simp: reprList.simps [of h "x # xs"] list_all2_Cons1 Cons)
qed

lemma reprFields_own: "reprFields h fs gs \<Longrightarrow> repr h (ownH fs k) (own gs k)"
proof (induction fs arbitrary: gs)
  case Nil
  then show ?case
    by (auto simp: reprFields.simps [of h "[]"] ownH_def own_def intro: repr_reprList_reprFields.undefined)
next
  case (Cons f fs)
  from Cons.prems obtain k' v j gs' where g: "f = (k', v)" "gs = (k', j) # gs'" "repr h v j"
    "reprFields h fs gs'"
    by (auto simp: reprFields.simps [of h "f # fs"])
  from Cons.IH [OF g(4)] g(3) show ?case
    by (simp add: g(1,2) ownH_def own_def)
qed

lemma repr_truthy: "repr h v j \<Longrightarrow> truthyH v = truthy j"
  by (erule repr.cases) simp_all

lemma repr_nullish: "repr h v j \<Longrightarrow> nullishH v = nullish j"
  by (erule repr.cases) (simp_all add: nullishH_def nullish_def)

lemma repr_JStr: "repr h v (JStr s) \<longleftrightarrow> v = HStr s"
  by (auto elim: repr.cases intro: repr_reprList_reprFields.str)

lemma repr_HStr: "repr h (HStr s) j \<longleftrightarrow> j = JStr s"
  by (auto elim: repr.cases intro: repr_reprList_reprFields.str)

lemma indexed_Some: "indexed xs k = Some x \<Longrightarrow> \<exists>i<length xs. x = xs ! i \<and> (\<forall>ys. length ys = length xs \<longrightarrow> indexed ys k = Some (ys ! i))"
proof -
  assume a: "indexed xs k = Some x"
  then obtain i rest where f: "filter (\<lambda>i. showNat i = k) [0..<length xs] = i # rest" "x = xs ! i"
    by (auto simp: indexed_def split: list.splits)
  then have "i \<in> set (filter (\<lambda>i. showNat i = k) [0..<length xs])" by simp
  then have "i < length xs" by simp
  with f show ?thesis by (auto simp: indexed_def)
qed

lemma indexed_None: "indexed xs k = None \<Longrightarrow> length ys = length xs \<Longrightarrow> indexed ys k = None"
  by (auto simp: indexed_def split: list.splits)

lemma agrees_Inr [simp]: "agrees h (Inr v) p \<longleftrightarrow> (\<exists>j. p = Inr j \<and> repr h v j)"
  by (cases p) (simp_all add: agrees_def)

lemma agrees_Inl [simp]: "agrees h (Inl e) p \<longleftrightarrow> p = Inl e"
  by (simp add: agrees_def)

section \<open>The heap operations compute what the operations on values compute\<close>

lemma sim_result: "repr (heap m) v j \<Longrightarrow> sim m (result v) (Inr j)"
  by (simp add: sim_def result_def)

lemma sim_getPropH:
  assumes "repr (heap m) v j"
  shows "sim m (getPropH v k) (getProp j k)"
  using assms
proof (cases rule: repr.cases)
  case (arr a xs js)
  then have l: "length xs = length js" and n: "\<And>i. i < length xs \<Longrightarrow> repr (heap m) (xs ! i) (js ! i)"
    by (auto simp: reprList_iff list_all2_conv_all_nth)
  have d: "deref m a = Some (HArray xs)"
    using arr by (simp add: deref_def)
  show ?thesis
  proof (cases "indexed xs k")
    case None
    with indexed_None [OF None, of js] l show ?thesis
      by (simp add: arr sim_def getPropH_def d getProp_def nullish_def
          repr_reprList_reprFields.num repr_reprList_reprFields.undefined)
  next
    case (Some x)
    from indexed_Some [OF Some] l obtain i where "i < length xs" "x = xs ! i" "indexed js k = Some (js ! i)"
      by auto
    with n [of i] Some l show ?thesis
      by (simp add: arr sim_def getPropH_def d getProp_def nullish_def
          repr_reprList_reprFields.num)
  qed
next
  case (obj a fs gs)
  have d: "deref m a = Some (HObject fs)"
    using obj by (simp add: deref_def)
  from reprFields_own [OF obj(5), of k] show ?thesis
    by (simp add: obj sim_def getPropH_def d getProp_def nullish_def)
qed (auto simp: sim_def getPropH_def getProp_def nullish_def
    intro: repr_reprList_reprFields.intros split: option.splits)

lemma sim_call_toLowerCaseH:
  assumes "repr (heap m) v j"
  shows "sim m (call_toLowerCaseH lower v) (call_toLowerCase lower j)"
  using assms
  by (cases rule: repr.cases)
    (auto simp: sim_def call_toLowerCaseH_def call_toLowerCase_def intro: repr_reprList_reprFields.str)

lemma sim_call_includesH:
  assumes "repr (heap m) v j"
  shows "sim m (call_includesH v x) (call_includes j x)"
  using assms
proof (cases rule: repr.cases)
  case (arr a xs js)
  then have l: "list_all2 (repr (heap m)) xs js"
    by (simp add: reprList_iff)
  have d: "deref m a = Some (HArray xs)"
    using arr by (simp add: deref_def)
  have "HStr x \<in> set xs \<longleftrightarrow> JStr x \<in> set js"
  proof
    assume "HStr x \<in> set xs"
    then obtain i where "i < length xs" "xs ! i = HStr x" by (auto simp: in_set_conv_nth)
    with l have "repr (heap m) (HStr x) (js ! i)" "i < length js"
      by (auto simp: list_all2_conv_all_nth)
    then show "JStr x \<in> set js" by (auto simp: repr_HStr in_set_conv_nth)
  next
    assume "JStr x \<in> set js"
    then obtain i where "i < length js" "js ! i = JStr x" by (auto simp: in_set_conv_nth)
    with l have "repr (heap m) (xs ! i) (JStr x)" "i < length xs"
      by (auto simp: list_all2_conv_all_nth)
    then show "HStr x \<in> set xs" by (auto simp: repr_JStr in_set_conv_nth)
  qed
  then show ?thesis
    by (simp add: arr sim_def call_includesH_def d call_includes_def repr_reprList_reprFields.bool)
next
  case (obj a fs gs)
  have d: "deref m a = Some (HObject fs)"
    using obj by (simp add: deref_def)
  show ?thesis
    by (simp add: obj sim_def call_includesH_def d call_includes_def)
qed (auto simp: sim_def call_includesH_def call_includes_def intro: repr_reprList_reprFields.bool)

lemma sim_andThenH:
  assumes "leaves f" and "sim m f p" and "\<And>v j. repr (heap m) v j \<Longrightarrow> sim m (g v) (q j)"
  shows "sim m (andThenH f g) (andThen p q)"
proof -
  obtain r where f: "f m = (r, m)"
    using assms(1) by (cases "f m") (auto dest: leavesD)
  show ?thesis
  proof (cases r)
    case (Inl e)
    with assms(2) f show ?thesis by (simp add: sim_def andThenH_def)
  next
    case (Inr v)
    with assms(2) f obtain j where "p = Inr j" "repr (heap m) v j"
      by (auto simp: sim_def)
    with assms(3) [of v j] f Inr show ?thesis
      by (simp add: sim_def andThenH_def)
  qed
qed

lemma sim_orElseH:
  assumes "leaves a" and "sim m a p" and "sim m b q"
  shows "sim m (orElseH a b) (orElse p q)"
proof -
  obtain r where f: "a m = (r, m)"
    using assms(1) by (cases "a m") (auto dest: leavesD)
  show ?thesis
  proof (cases r)
    case (Inl e)
    with assms(2) f show ?thesis by (simp add: sim_def orElseH_def orElse_def)
  next
    case (Inr v)
    with assms(2) f obtain j where "p = Inr j" "repr (heap m) v j"
      by (auto simp: sim_def)
    with assms(3) f Inr repr_truthy [of "heap m" v j] show ?thesis
      by (simp add: sim_def orElseH_def orElse_def)
  qed
qed

lemma sim_andAlsoH:
  assumes "leaves a" and "sim m a p" and "sim m b q"
  shows "sim m (andAlsoH a b) (andAlso p q)"
proof -
  obtain r where f: "a m = (r, m)"
    using assms(1) by (cases "a m") (auto dest: leavesD)
  show ?thesis
  proof (cases r)
    case (Inl e)
    with assms(2) f show ?thesis by (simp add: sim_def andAlsoH_def andAlso_def)
  next
    case (Inr v)
    with assms(2) f obtain j where "p = Inr j" "repr (heap m) v j"
      by (auto simp: sim_def)
    with assms(3) f Inr repr_truthy [of "heap m" v j] show ?thesis
      by (simp add: sim_def andAlsoH_def andAlso_def)
  qed
qed

lemma sim_if_nullish:
  assumes "repr (heap m) v j" and "sim m a p" and "sim m b q"
  shows "sim m (if nullishH v then a else b) (if nullish j then p else q)"
  using assms by (simp add: repr_nullish)

lemma sim_someFrom:
  assumes "\<And>x. leaves (f x)" and "\<And>x j. repr (heap m) x j \<Longrightarrow> sim m (f x) (g j)"
    and "deref m a = Some (HArray xs)" and "list_all2 (repr (heap m)) xs js"
  shows "k + n = length xs \<Longrightarrow> sim m (someFrom f a k n) (array_some g (drop k js))"
proof (induction n arbitrary: k)
  case 0
  with assms(4) have "drop k js = []" by (simp add: list_all2_lengthD)
  then show ?case by (simp add: sim_def repr_reprList_reprFields.bool)
next
  case (Suc n)
  from assms(4) have l: "length js = length xs" by (simp add: list_all2_lengthD)
  from Suc.prems have k: "k < length xs" by simp
  with l have d: "drop k js = js ! k # drop (Suc k) js"
    by (simp add: Cons_nth_drop_Suc)
  from assms(4) k have r: "repr (heap m) (xs ! k) (js ! k)"
    by (simp add: list_all2_conv_all_nth)
  obtain t where c: "f (xs ! k) m = (t, m)"
    using assms(1) [of "xs ! k"] by (cases "f (xs ! k) m") (auto dest: leavesD)
  from assms(2) [OF r] c have a: "agrees (heap m) t (g (js ! k))"
    by (simp add: sim_def)
  from Suc.prems have n: "Suc k + n = length xs" by simp
  show ?case
  proof (cases t)
    case (Inl e)
    with a c k show ?thesis by (simp add: sim_def assms(3) d)
  next
    case (Inr v)
    with a obtain j where j: "g (js ! k) = Inr j" "repr (heap m) v j" by auto
    with Suc.IH [OF n] c k Inr repr_truthy [OF j(2)] show ?thesis
      by (simp add: sim_def assms(3) d repr_reprList_reprFields.bool)
  qed
qed

lemma sim_call_someH:
  assumes "\<And>x. leaves (f x)" and "\<And>x j. repr (heap m) x j \<Longrightarrow> sim m (f x) (g j)"
    and "repr (heap m) v j"
  shows "sim m (call_someH f v) (call_some g j)"
  using assms(3)
proof (cases rule: repr.cases)
  case (arr a xs js)
  have d: "deref m a = Some (HArray xs)"
    using arr by (simp add: deref_def)
  from arr have l: "list_all2 (repr (heap m)) xs js"
    by (simp add: reprList_iff)
  from sim_someFrom [OF assms(1,2) d l, where k = 0 and n = "length xs"] show ?thesis
    by (simp add: arr call_someH_def d call_some_def sim_def)
next
  case (obj a fs gs)
  have d: "deref m a = Some (HObject fs)"
    using obj by (simp add: deref_def)
  show ?thesis
    by (simp add: obj sim_def call_someH_def d call_some_def)
qed (auto simp: sim_def call_someH_def call_some_def)

lemma sim_filterFrom:
  assumes "\<And>x. leaves (f x)" and "\<And>x j. repr (heap m) x j \<Longrightarrow> sim m (f x) (g j)"
    and "deref m a = Some (HArray xs)" and "list_all2 (repr (heap m)) xs js"
  shows "k + n = length xs \<Longrightarrow>
         (case array_filter g (drop k js) of
            Inl e \<Rightarrow> fst (filterFrom f a k n kept m) = Inl e
          | Inr rs \<Rightarrow>
              (\<exists>more. fst (filterFrom f a k n kept m) = Inr (kept @ more)
                 \<and> list_all2 (repr (heap m)) more rs
                 \<and> more = map fst (filter (\<lambda>p. case g (snd p) of Inl e \<Rightarrow> False | Inr t \<Rightarrow> truthy t)
                                      (zip (drop k xs) (drop k js)))))"
proof (induction n arbitrary: k kept)
  case 0
  with assms(4) have "drop k js = []" by (simp add: list_all2_lengthD)
  then show ?case by simp
next
  case (Suc n)
  from assms(4) have l: "length js = length xs" by (simp add: list_all2_lengthD)
  from Suc.prems have k: "k < length xs" by simp
  with l have d: "drop k js = js ! k # drop (Suc k) js" "drop k xs = xs ! k # drop (Suc k) xs"
    by (simp_all add: Cons_nth_drop_Suc)
  from assms(4) k have r: "repr (heap m) (xs ! k) (js ! k)"
    by (simp add: list_all2_conv_all_nth)
  obtain t where c: "f (xs ! k) m = (t, m)"
    using assms(1) [of "xs ! k"] by (cases "f (xs ! k) m") (auto dest: leavesD)
  from assms(2) [OF r] c have a: "agrees (heap m) t (g (js ! k))"
    by (simp add: sim_def)
  from Suc.prems have n: "Suc k + n = length xs" by simp
  show ?case
  proof (cases t)
    case (Inl e)
    with a c k show ?thesis by (simp add: assms(3) d)
  next
    case (Inr v)
    with a obtain j where j: "g (js ! k) = Inr j" "repr (heap m) v j" by auto
    note t = repr_truthy [OF j(2)]
    show ?thesis
    proof (cases "array_filter g (drop (Suc k) js)")
      case E: (Inl e)
      with Suc.IH [OF n, of "if truthyH v then kept @ [xs ! k] else kept"]
      show ?thesis
        using c k Inr j(1) by (simp add: assms(3) d)
    next
      case R: (Inr rs)
      with Suc.IH [OF n, of "if truthyH v then kept @ [xs ! k] else kept"]
      obtain more where m: "fst (filterFrom f a (Suc k) n (if truthyH v then kept @ [xs ! k] else kept) m)
                               = Inr ((if truthyH v then kept @ [xs ! k] else kept) @ more)"
        "list_all2 (repr (heap m)) more rs"
        "more = map fst (filter (\<lambda>p. case g (snd p) of Inl e \<Rightarrow> False | Inr t \<Rightarrow> truthy t)
                           (zip (drop (Suc k) xs) (drop (Suc k) js)))"
        by auto
      show ?thesis
      proof (cases "truthyH v")
        case True
        with m(1,2) r t show ?thesis
          using c k Inr j(1) R
          by (simp add: assms(3) d m(3) [symmetric])
      next
        case False
        with m(1,2) t show ?thesis
          using c k Inr j(1) R
          by (simp add: assms(3) d m(3) [symmetric])
      qed
    qed
  qed
qed

lemma andThenH_readVar [simp]: "andThenH (readVar x) g m = g (x m) m"
  by (simp add: andThenH_def readVar_def)

lemma sim_searchMatchesH:
  assumes "repr (heap m) word j"
  shows "sim m (searchMatchesH lower word q) (searchMatches lower j q)"
proof -
  note r = assms
  have lower_incl: "sim m (andThenH (call_toLowerCaseH lower v) (\<lambda>l. call_includesH l x))
                     (andThen (call_toLowerCase lower w) (\<lambda>l. call_includes l x))"
    if "repr (heap m) v w" for v w x
    using that
    by (intro sim_andThenH leaves_call_toLowerCaseH sim_call_toLowerCaseH sim_call_includesH)
  show ?thesis
    unfolding searchMatchesH_def searchMatches_def Let_def
    by (intro sim_orElseH sim_andAlsoH sim_andThenH sim_call_someH sim_if_nullish
        leaves_orElseH leaves_andAlsoH leaves_andThenH leaves_call_someH leaves_if
        leaves_getPropH leaves_call_toLowerCaseH leaves_call_includesH leaves_result
        sim_getPropH sim_call_toLowerCaseH sim_call_includesH sim_result
        repr_reprList_reprFields.undefined r)
qed

lemma sim_filterCallbackH:
  assumes "repr (heap m) word j" and "currentFilter st = currentFilterVar m"
    and "currentSearch st = currentSearchVar m"
  shows "sim m (filterCallbackH lower word) (filterCallback lower st j)"
proof -
  have s: "sim m (matchesSearchH lower word) (matchesSearch lower (currentSearch st) j)"
    using sim_searchMatchesH [OF assms(1), of lower "currentSearchVar m"]
    by (simp add: sim_def matchesSearchH_def matchesSearch_def assms(3) result_def
        repr_reprList_reprFields.bool)
  have "sim m (andThenH (getPropH word (u ''category''))
                 (\<lambda>c. andThenH (readVar currentFilterVar) (\<lambda>filt. result (HBool (c = HStr filt)))))
              (andThen (getProp j (u ''category'')) (\<lambda>c. Inr (JBool (c = JStr (currentFilter st)))))"
  proof (intro sim_andThenH leaves_getPropH sim_getPropH assms(1))
    fix v w
    assume "repr (heap m) v w"
    then have "v = HStr (currentFilterVar m) \<longleftrightarrow> w = JStr (currentFilterVar m)"
      by (auto simp: repr_JStr repr_HStr)
    then show "sim m (andThenH (readVar currentFilterVar) (\<lambda>filt. result (HBool (v = HStr filt))))
                 (Inr (JBool (w = JStr (currentFilter st))))"
      by (simp add: sim_def result_def assms(2) repr_reprList_reprFields.bool)
  qed
  then have c: "sim m (matchesCategoryH word) (matchesCategory (currentFilter st) j)"
    by (simp add: sim_def matchesCategoryH_def matchesCategory_def assms(2) result_def
        repr_reprList_reprFields.bool)
  show ?thesis
    unfolding filterCallbackH_def filterCallback_def
  proof (intro sim_andThenH leaves_matchesSearchH leaves_matchesCategoryH s c)
    fix ms ms' mc mc'
    assume "repr (heap m) ms ms'" "repr (heap m) mc mc'"
    then show "sim m (result (if truthyH ms then mc else ms)) (Inr (if truthy ms' then mc' else ms'))"
      by (simp add: sim_def result_def repr_truthy)
  qed
qed

lemma repr_mono:
  "repr h v j \<Longrightarrow> repr (h @ new) v j"
  "reprList h xs js \<Longrightarrow> reprList (h @ new) xs js"
  "reprFields h fs gs \<Longrightarrow> reprFields (h @ new) fs gs"
  by (induction rule: repr_reprList_reprFields.inducts)
    (auto intro: repr_reprList_reprFields.intros simp: nth_append)

lemma filterWordsH_frame:
  "(\<exists>e. filterWordsH lower m = (Inl e, m))
   \<or> (\<exists>kept. filterWordsH lower m
               = (Inr (HRef (length (heap m))), m \<lparr> heap := heap m @ [HArray kept] \<rparr>))"
proof -
  have f: "filterFrom (filterCallbackH lower) a k n kept m
           = (fst (filterFrom (filterCallbackH lower) a k n kept m), m)" for a k n kept
    using filterFrom_leaves [of "filterCallbackH lower" a k n kept m, OF leaves_filterCallbackH]
    by (metis prod.collapse)
  show ?thesis
  proof (cases "lexiconDataVar m")
    case (HRef a)
    show ?thesis
    proof (cases "deref m a")
      case None
      with HRef show ?thesis by (simp add: filterWordsH_def call_filterH_def)
    next
      case (Some ob)
      show ?thesis
      proof (cases ob)
        case (HObject fs)
        with HRef Some show ?thesis by (simp add: filterWordsH_def call_filterH_def)
      next
        case (HArray xs)
        show ?thesis
        proof (cases "fst (filterFrom (filterCallbackH lower) a 0 (length xs) [] m)")
          case (Inl e)
          with HRef Some HArray f [of a 0 "length xs" "[]"] show ?thesis
            by (simp add: filterWordsH_def call_filterH_def)
        next
          case (Inr kept)
          with HRef Some HArray f [of a 0 "length xs" "[]"] show ?thesis
            by (auto simp: filterWordsH_def call_filterH_def)
        qed
      qed
    qed
  qed (simp_all add: filterWordsH_def call_filterH_def)
qed

lemma filterWordsH_computes:
  assumes "repr (heap m) (lexiconDataVar m) (lexiconData st)"
    and "currentFilter st = currentFilterVar m" and "currentSearch st = currentSearchVar m"
  shows "case filterWords lower st of
           Inl e \<Rightarrow> filterWordsH lower m = (Inl e, m)
         | Inr rs \<Rightarrow>
             (\<exists>a xs js kept.
                 lexiconDataVar m = HRef a \<and> deref m a = Some (HArray xs) \<and> lexiconData st = JArr js
               \<and> kept = map fst (filter (\<lambda>p. case filterCallback lower st (snd p) of
                                               Inl e \<Rightarrow> False | Inr t \<Rightarrow> truthy t) (zip xs js))
               \<and> filterWordsH lower m
                   = (Inr (HRef (length (heap m))), m \<lparr> heap := heap m @ [HArray kept] \<rparr>)
               \<and> list_all2 (repr (heap m)) kept rs)"
  using assms(1)
proof (cases rule: repr.cases)
  case (arr a xs js)
  have d: "deref m a = Some (HArray xs)"
    using arr by (simp add: deref_def)
  from arr have l: "list_all2 (repr (heap m)) xs js"
    by (simp add: reprList_iff)
  have f: "filterFrom (filterCallbackH lower) a 0 (length xs) [] m
           = (fst (filterFrom (filterCallbackH lower) a 0 (length xs) [] m), m)"
    using filterFrom_leaves [of "filterCallbackH lower" a 0 "length xs" "[]" m, OF leaves_filterCallbackH]
    by (metis prod.collapse)
  have c: "sim m (filterCallbackH lower x) (filterCallback lower st j)" if "repr (heap m) x j" for x j
    using that assms(2,3) by (rule sim_filterCallbackH)
  note s = sim_filterFrom [of "filterCallbackH lower" m "filterCallback lower st" a xs js 0 "length xs" "[]",
      OF leaves_filterCallbackH c d l]
  have p: "filterWords lower st = array_filter (filterCallback lower st) js"
    by (simp add: filterWords_def arr(2))
  have h: "filterWordsH lower m = call_filterH (filterCallbackH lower) (HRef a) m"
    by (simp add: filterWordsH_def arr(1))
  show ?thesis
  proof (cases "array_filter (filterCallback lower st) js")
    case (Inl e)
    with s have "fst (filterFrom (filterCallbackH lower) a 0 (length xs) [] m) = Inl e"
      by simp
    with f have "filterFrom (filterCallbackH lower) a 0 (length xs) [] m = (Inl e, m)"
      by simp
    then show ?thesis
      by (simp add: p Inl h call_filterH_def d)
  next
    case (Inr rs)
    define kept where "kept = map fst (filter (\<lambda>p. case filterCallback lower st (snd p) of
                                               Inl e \<Rightarrow> False | Inr t \<Rightarrow> truthy t) (zip xs js))"
    from Inr s have k: "fst (filterFrom (filterCallbackH lower) a 0 (length xs) [] m) = Inr kept"
      "list_all2 (repr (heap m)) kept rs"
      by (simp_all add: kept_def)
    with f have "filterFrom (filterCallbackH lower) a 0 (length xs) [] m = (Inr kept, m)"
      by simp
    then have "filterWordsH lower m = (Inr (HRef (length (heap m))), m \<lparr> heap := heap m @ [HArray kept] \<rparr>)"
      by (simp add: h call_filterH_def d)
    with k(2) arr d show ?thesis
      unfolding p Inr kept_def by simp
  qed
next
  case (obj a fs gs)
  have d: "deref m a = Some (HObject fs)"
    using obj by (simp add: deref_def)
  show ?thesis
    by (simp add: filterWords_def obj(2) filterWordsH_def obj(1) call_filterH_def d)
next
  case undefined
  then show ?thesis
    by (simp add: filterWords_def undefined(2) filterWordsH_def call_filterH_def)
next
  case null
  then show ?thesis
    by (simp add: filterWords_def null(2) filterWordsH_def call_filterH_def)
next
  case (bool b)
  then show ?thesis
    by (simp add: filterWords_def bool(2) filterWordsH_def call_filterH_def)
next
  case (num n)
  then show ?thesis
    by (simp add: filterWords_def num(2) filterWordsH_def call_filterH_def)
next
  case (str s)
  then show ?thesis
    by (simp add: filterWords_def str(2) filterWordsH_def call_filterH_def)
qed

lemma sampleMemory_repr:
  "repr (heap sampleMemory) (HRef 1) cacheTerm"
  "repr (heap sampleMemory) (HRef 2) schedulerTerm"
  "repr (heap sampleMemory) (HRef 0) (JArr [cacheTerm, schedulerTerm])"
proof -
  show 1: "repr (heap sampleMemory) (HRef 1) cacheTerm"
    unfolding cacheTerm_def
    by (rule repr_reprList_reprFields.obj
        [where fs = "[(u ''english'', HStr (u ''Cache'')),
                      (u ''khmer'', HStr [0x17B4, 0x1783, 0x17B6, 0x179F]),
                      (u ''category'', HStr (u ''storage''))]"])
      (simp_all add: sampleMemory_def repr_reprList_reprFields.intros)
  show 2: "repr (heap sampleMemory) (HRef 2) schedulerTerm"
    unfolding schedulerTerm_def
    by (rule repr_reprList_reprFields.obj
        [where fs = "[(u ''english'', HStr (u ''Scheduler'')),
                      (u ''khmer'', HStr [0x17B4, 0x179F, 0x1788, 0x17C1, 0x178C]),
                      (u ''category'', HStr (u ''compute''))]"])
      (simp_all add: sampleMemory_def repr_reprList_reprFields.intros)
  show "repr (heap sampleMemory) (HRef 0) (JArr [cacheTerm, schedulerTerm])"
  proof (rule repr_reprList_reprFields.arr [where xs = "[HRef 1, HRef 2]"])
    show "0 < length (heap sampleMemory)"
      by (simp add: sampleMemory_def)
    show "heap sampleMemory ! 0 = HArray [HRef 1, HRef 2]"
      by (simp add: sampleMemory_def)
    show "reprList (heap sampleMemory) [HRef 1, HRef 2] [cacheTerm, schedulerTerm]"
      by (intro repr_reprList_reprFields.cons repr_reprList_reprFields.nil 1 2)
  qed
qed

text \<open>
  C8. \<open>filterWords\<close> on the heap. In every memory a call leaves the four global
  variables as they were and every object of the heap as it was: the heap after the call
  is the heap before it, with at most a new array behind it. When the term collection in
  memory stands for the term collection of a state of the value model, with the same
  query state, the call throws exactly when \<open>filterWords\<close> of the value model does, in
  the memory it was given; otherwise it returns a new array, of references into the old
  heap that stand for the terms \<open>filterWords\<close> returns, and a second call, in the memory
  that the first one left, returns another new array of the same references. The
  category mapping, in memory or in the state, is not read.
\<close>

theorem filterWords_pure:
  "(\<exists>r m'. filterWordsH lower m = (r, m')
       \<and> lexiconDataVar m' = lexiconDataVar m \<and> categoriesDataVar m' = categoriesDataVar m
       \<and> currentFilterVar m' = currentFilterVar m \<and> currentSearchVar m' = currentSearchVar m
       \<and> take (length (heap m)) (heap m') = heap m)
   \<and> (repr (heap m) (lexiconDataVar m) (lexiconData st)
       \<and> currentFilter st = currentFilterVar m \<and> currentSearch st = currentSearchVar m
      \<longrightarrow> (case filterWords lower st of
             Inl e \<Rightarrow> filterWordsH lower m = (Inl e, m)
           | Inr rs \<Rightarrow>
               (\<exists>kept.
                   filterWordsH lower m
                     = (Inr (HRef (length (heap m))), m \<lparr> heap := heap m @ [HArray kept] \<rparr>)
                 \<and> filterWordsH lower (m \<lparr> heap := heap m @ [HArray kept] \<rparr>)
                     = (Inr (HRef (Suc (length (heap m)))),
                        m \<lparr> heap := heap m @ [HArray kept, HArray kept] \<rparr>)
                 \<and> list_all2 (repr (heap m)) kept rs)))"
proof (intro conjI impI)
  from filterWordsH_frame [of lower m]
  show "\<exists>r m'. filterWordsH lower m = (r, m')
       \<and> lexiconDataVar m' = lexiconDataVar m \<and> categoriesDataVar m' = categoriesDataVar m
       \<and> currentFilterVar m' = currentFilterVar m \<and> currentSearchVar m' = currentSearchVar m
       \<and> take (length (heap m)) (heap m') = heap m"
    by (elim disjE exE) simp_all
next
  assume a: "repr (heap m) (lexiconDataVar m) (lexiconData st)
       \<and> currentFilter st = currentFilterVar m \<and> currentSearch st = currentSearchVar m"
  then have a1: "repr (heap m) (lexiconDataVar m) (lexiconData st)"
    and a2: "currentFilter st = currentFilterVar m" and a3: "currentSearch st = currentSearchVar m"
    by simp_all
  show "case filterWords lower st of
             Inl e \<Rightarrow> filterWordsH lower m = (Inl e, m)
           | Inr rs \<Rightarrow>
               (\<exists>kept.
                   filterWordsH lower m
                     = (Inr (HRef (length (heap m))), m \<lparr> heap := heap m @ [HArray kept] \<rparr>)
                 \<and> filterWordsH lower (m \<lparr> heap := heap m @ [HArray kept] \<rparr>)
                     = (Inr (HRef (Suc (length (heap m)))),
                        m \<lparr> heap := heap m @ [HArray kept, HArray kept] \<rparr>)
                 \<and> list_all2 (repr (heap m)) kept rs)"
  proof (cases "filterWords lower st")
    case (Inl e)
    with filterWordsH_computes [OF a1 a2 a3, of lower] show ?thesis
      by simp
  next
    case (Inr rs)
    with filterWordsH_computes [OF a1 a2 a3, of lower] obtain a xs js kept where
      k: "lexiconDataVar m = HRef a" "deref m a = Some (HArray xs)" "lexiconData st = JArr js"
        "kept = map fst (filter (\<lambda>p. case filterCallback lower st (snd p) of
                                               Inl e \<Rightarrow> False | Inr t \<Rightarrow> truthy t) (zip xs js))"
        "filterWordsH lower m = (Inr (HRef (length (heap m))), m \<lparr> heap := heap m @ [HArray kept] \<rparr>)"
        "list_all2 (repr (heap m)) kept rs"
      by auto
    define m' where "m' = m \<lparr> heap := heap m @ [HArray kept] \<rparr>"
    have b1: "repr (heap m') (lexiconDataVar m') (lexiconData st)"
      using repr_mono(1) [OF a1, of "[HArray kept]"] by (simp add: m'_def)
    have b2: "currentFilter st = currentFilterVar m'" "currentSearch st = currentSearchVar m'"
      using a2 a3 by (simp_all add: m'_def)
    have d': "deref m' a = Some (HArray xs)"
      using k(2) by (auto simp: deref_def m'_def nth_append split: if_splits)
    from Inr filterWordsH_computes [OF b1 b2, of lower] obtain a' xs' js' kept2 where
      k2: "lexiconDataVar m' = HRef a'" "deref m' a' = Some (HArray xs')" "lexiconData st = JArr js'"
        "kept2 = map fst (filter (\<lambda>p. case filterCallback lower st (snd p) of
                                               Inl e \<Rightarrow> False | Inr t \<Rightarrow> truthy t) (zip xs' js'))"
        "filterWordsH lower m' = (Inr (HRef (length (heap m'))), m' \<lparr> heap := heap m' @ [HArray kept2] \<rparr>)"
      by auto
    from k(1) k2(1) have "a' = a" by (simp add: m'_def)
    with d' k2(2) have "xs' = xs" by simp
    moreover from k(3) k2(3) have "js' = js" by simp
    ultimately have "kept2 = kept" using k(4) k2(4) by simp
    with k2(5) have "filterWordsH lower m'
                     = (Inr (HRef (Suc (length (heap m)))),
                        m \<lparr> heap := heap m @ [HArray kept, HArray kept] \<rparr>)"
      by (simp add: m'_def)
    with k(5,6) Inr show ?thesis
      unfolding m'_def by auto
  qed
qed

theorem filterWords_pure_witness:
  "repr (heap sampleMemory) (lexiconDataVar sampleMemory) (JArr [cacheTerm, schedulerTerm])
   \<and> filterWords asciiLower (scenario (u ''all'') (u ''sched'')) = Inr [schedulerTerm]
   \<and> filterWordsH asciiLower sampleMemory
       = (Inr (HRef 4), sampleMemory \<lparr> heap := heap sampleMemory @ [HArray [HRef 2]] \<rparr>)
   \<and> filterWordsH asciiLower (sampleMemory \<lparr> heap := heap sampleMemory @ [HArray [HRef 2]] \<rparr>)
       = (Inr (HRef 5), sampleMemory \<lparr> heap := heap sampleMemory @ [HArray [HRef 2], HArray [HRef 2]] \<rparr>)
   \<and> repr (heap sampleMemory) (HRef 2) schedulerTerm"
proof -
  have v: "lexiconDataVar sampleMemory = HRef 0" "currentFilterVar sampleMemory = u ''all''"
    "currentSearchVar sampleMemory = u ''sched''" "length (heap sampleMemory) = 4"
    by (simp_all add: sampleMemory_def)
  have s: "lexiconData (scenario (u ''all'') (u ''sched'')) = JArr [cacheTerm, schedulerTerm]"
    "currentFilter (scenario (u ''all'') (u ''sched'')) = u ''all''"
    "currentSearch (scenario (u ''all'') (u ''sched'')) = u ''sched''"
    by (simp_all add: scenario_def)
  have h: "repr (heap sampleMemory) (lexiconDataVar sampleMemory) (lexiconData (scenario (u ''all'') (u ''sched'')))
       \<and> currentFilter (scenario (u ''all'') (u ''sched'')) = currentFilterVar sampleMemory
       \<and> currentSearch (scenario (u ''all'') (u ''sched'')) = currentSearchVar sampleMemory"
    unfolding v s by (simp add: sampleMemory_repr)
  have p: "filterWords asciiLower (scenario (u ''all'') (u ''sched'')) = Inr [schedulerTerm]"
    by (simp add: filterWords_def scenario_def initialApp_def filterCallback_def matchesSearch_def matchesCategory_def
        searchMatches_def getProp_def nullish_def call_toLowerCase_def call_includes_def
        orElse_def andAlso_def cacheTerm_def schedulerTerm_def own_def asciiLower_def
        str_includes_def sublist_code u_def)
  have e: "filterWordsH asciiLower sampleMemory
       = (Inr (HRef 4), sampleMemory \<lparr> heap := heap sampleMemory @ [HArray [HRef 2]] \<rparr>)"
    by (simp add: filterWordsH_def call_filterH_def filterCallbackH_def matchesSearchH_def
        matchesCategoryH_def searchMatchesH_def getPropH_def nullishH_def call_toLowerCaseH_def
        call_includesH_def orElseH_def andAlsoH_def andThenH_def readVar_def result_def deref_def
        ownH_def sampleMemory_def asciiLower_def str_includes_def sublist_code u_def Let_def)
  from filterWords_pure [of asciiLower sampleMemory "scenario (u ''all'') (u ''sched'')",
      THEN conjunct2, rule_format, OF h]
  obtain kept where k: "filterWordsH asciiLower sampleMemory
       = (Inr (HRef (length (heap sampleMemory))), sampleMemory \<lparr> heap := heap sampleMemory @ [HArray kept] \<rparr>)"
    "filterWordsH asciiLower (sampleMemory \<lparr> heap := heap sampleMemory @ [HArray kept] \<rparr>)
       = (Inr (HRef (Suc (length (heap sampleMemory)))),
          sampleMemory \<lparr> heap := heap sampleMemory @ [HArray kept, HArray kept] \<rparr>)"
    unfolding p by auto
  from k(1) e have "heap (sampleMemory \<lparr> heap := heap sampleMemory @ [HArray kept] \<rparr>)
                    = heap (sampleMemory \<lparr> heap := heap sampleMemory @ [HArray [HRef 2]] \<rparr>)"
    by simp
  then have "kept = [HRef 2]"
    by simp
  with k(2) have 2: "filterWordsH asciiLower (sampleMemory \<lparr> heap := heap sampleMemory @ [HArray [HRef 2]] \<rparr>)
       = (Inr (HRef 5), sampleMemory \<lparr> heap := heap sampleMemory @ [HArray [HRef 2], HArray [HRef 2]] \<rparr>)"
    by (simp add: v(4))
  from h p e 2 sampleMemory_repr(2) show ?thesis
    unfolding v s by simp
qed

lemmas render_simps =
  createWordCard_def getProp_def nullish_def own_def lookupKey_def inherited_def
  objectPrototypeMethods_def jsOr_def template_def lit_def escapeHtml_def escapeChar_def
  renderExamples_def renderTags_def renderReference_def

lemma escapeChar_no_markup: "c \<in> set (escapeChar m) \<Longrightarrow> c \<notin> {60, 62, 34, 39}"
  by (auto simp: escapeChar_def u_def split: if_splits)

lemma escapeHtml_no_markup:
  assumes "escapeHtml (JStr s) = JStr t"
  shows "set t \<inter> {60, 62, 34, 39} = {}"
  using assms by (auto simp: escapeHtml_def dest: escapeChar_no_markup)

text \<open>
  C6. The card of a term whose name, category and date contain markup: the English name
  is escaped, the category key (shown as the display name when the category is unknown)
  and the date are inserted as they are.
\<close>

theorem createWordCard_unescaped_fields:
  "createWordCard (JObj []) injectedTerm =
     Inr (u ''\<newline>        <div class=\"word-card slide-up\">\<newline>''
          @ u ''            <div class=\"word-english\">&lt;i&gt;Cache&lt;/i&gt;</div>\<newline>''
          @ u ''            <div class=\"word-khmer\">'' @ [0x17B4, 0x1783, 0x17B6, 0x179F] @ u ''</div>\<newline>''
          @ u ''            <div class=\"word-category\">\<newline>''
          @ u ''                '' @ [0xD83D, 0xDCDD] @ u '' <b>storage</b>\<newline>''
          @ u ''            </div>\<newline>''
          @ u ''            <div class=\"word-description\">No description available</div>\<newline>''
          @ u ''            \<newline>''
          @ u ''            \<newline>''
          @ u ''            <div class=\"word-footer\">\<newline>''
          @ u ''                <div class=\"word-date\">Added: <img src=x onerror=alert(1)></div>\<newline>''
          @ u ''                \<newline>''
          @ u ''            </div>\<newline>''
          @ u ''        </div>\<newline>''
          @ u ''    '')"
  by (simp add: injectedTerm_def render_simps u_def)

section \<open>Loading and export\<close>

lemma thenDo_None: "f st = (None, st') \<Longrightarrow> thenDo f g st = g st'"
  by (simp add: thenDo_def)

lemma thenDo_Some: "f st = (Some e, st') \<Longrightarrow> thenDo f g st = (Some e, st')"
  by (simp add: thenDo_def)

lemma attempt_Inr [simp]: "attempt (Inr v) f st = f v st"
  by (simp add: attempt_def)

lemma attempt_Inl [simp]: "attempt (Inl e) f st = (Some e, st)"
  by (simp add: attempt_def)

lemma showLoading_panels:
  assumes "loading (elements st) = Some l" and "error (elements st) = Some e" and "mainContent (elements st) = Some (d, cl)"
  shows "showLoading st =
           (None, st \<lparr> elements := (elements st) \<lparr> loading := Some (u ''block''), error := Some (u ''none''),
                                        mainContent := Some (u ''none'', cl) \<rparr> \<rparr>)"
  using assms
  by (simp add: showLoading_def thenDo_def setLoadingDisplay_def setErrorDisplay_def
      setMainContentDisplay_def)

lemma showError_panels:
  assumes "loading (elements st) = Some l" and "error (elements st) = Some e" and "mainContent (elements st) = Some (d, cl)"
  shows "showError st =
           (None, st \<lparr> elements := (elements st) \<lparr> loading := Some (u ''none''), error := Some (u ''block''),
                                        mainContent := Some (u ''none'', cl) \<rparr> \<rparr>)"
  using assms
  by (simp add: showError_def thenDo_def setLoadingDisplay_def setErrorDisplay_def
      setMainContentDisplay_def)

lemma await_Pending [simp]: "await Pending f st = (Suspended, st)"
  by (simp add: await_def)

lemma await_rejected [simp]: "await (Settles t (Inl e)) f st = (Finished (Some e), st)"
  by (simp add: await_def)

lemma await_fulfilled [simp]: "await (Settles t (Inr v)) f st = f v st"
  by (simp add: await_def)

lemma thenAwait_None: "f st = (None, st') \<Longrightarrow> thenAwait f g st = g st'"
  by (simp add: thenAwait_def)

lemma fetchWithTimeout_settles: "\<exists>t r. fetchWithTimeout network url timeout = Settles t r"
  by (simp add: fetchWithTimeout_def split: promise.splits)

lemma fetchWithTimeout_fails:
  assumes "requestFails_spec (network url)"
  shows "\<exists>t e. fetchWithTimeout network url 10000 = Settles t (Inl e)"
  using assms
  by (auto simp: requestFails_spec_def fetchWithTimeout_def ok_def split: promise.splits sum.splits)

lemma fetchWithTimeout_answers:
  assumes "fetchWithTimeout network url 10000 = Settles t (Inr r)"
  shows "network url = Settles t (Inr r) \<and> \<not> requestFails_spec (network url)"
  using assms
  by (auto simp: requestFails_spec_def fetchWithTimeout_def ok_def
      split: promise.splits sum.splits if_splits)

lemma promiseAll_rejected:
  assumes "a = Settles ta ra" and "b = Settles tb rb" and "c = Settles tc rc"
    and "isl ra \<or> isl rb \<or> isl rc"
  shows "\<exists>t e. promiseAll [a, b, c] = Settles t (Inl e)"
  using assms
  by (cases ra; cases rb; cases rc) auto

lemma promiseAll_fulfilled:
  "\<exists>t. promiseAll [Settles ta (Inr x), Settles tb (Inr y), Settles tc (Inr z)]
         = Settles t (Inr [x, y, z])"
  by simp

text \<open>The \<open>try\<close> block when a request fails, and when the three requests are answered.\<close>

lemma loadData_try_rejected:
  assumes "showLoading st = (None, st1)"
    and "requestFails_spec (network (u ''data/lexicon.json''))
         \<or> requestFails_spec (network (u ''data/categories.json''))
         \<or> requestFails_spec (network (u ''data/website.json''))"
  shows "\<exists>e. loadData_try lower network st = (Finished (Some e), st1)"
proof -
  let ?f = "\<lambda>url. fetchWithTimeout network url 10000"
  obtain ta ra tb rb tc rc where s: "?f (u ''data/lexicon.json'') = Settles ta ra"
    "?f (u ''data/categories.json'') = Settles tb rb" "?f (u ''data/website.json'') = Settles tc rc"
    using fetchWithTimeout_settles [of network _ 10000] by metis
  from assms(2) s fetchWithTimeout_fails [of network] have "isl ra \<or> isl rb \<or> isl rc"
    by fastforce
  from promiseAll_rejected [OF s this] obtain t e where
    "promiseAll [?f (u ''data/lexicon.json''), ?f (u ''data/categories.json''), ?f (u ''data/website.json'')]
       = Settles t (Inl e)"
    by blast
  then show ?thesis
    by (simp add: loadData_try_def thenAwait_None [of showLoading st st1, OF assms(1)])
qed

lemma loadData_try_answered:
  assumes "showLoading st = (None, st1)"
    and "\<not> requestFails_spec (network (u ''data/lexicon.json''))"
    and "\<not> requestFails_spec (network (u ''data/categories.json''))"
    and "\<not> requestFails_spec (network (u ''data/website.json''))"
  shows "(\<exists>e. loadData_try lower network st = (Finished (Some e), st1))
         \<or> (\<exists>ta r1 tb r2 tc r3.
               network (u ''data/lexicon.json'') = Settles ta (Inr r1)
             \<and> network (u ''data/categories.json'') = Settles tb (Inr r2)
             \<and> network (u ''data/website.json'') = Settles tc (Inr r3)
             \<and> loadData_try lower network st
                 = await (json r1) (\<lambda>lexiconJson.
                   await (json r2) (\<lambda>categoriesJson.
                   await (json r3) (\<lambda>websiteJson.
                   finish
                  (attempt (getProp lexiconJson (u ''terms'')) (\<lambda>terms.
                   thenDo (\<lambda>st. (None, st \<lparr> lexiconData := jsOr terms (JArr []) \<rparr>))
                  (attempt (getProp categoriesJson (u ''categories'')) (\<lambda>categories.
                   thenDo (\<lambda>st. (None, st \<lparr> categoriesData := jsOr categories (JObj []) \<rparr>))
                  (thenDo (\<lambda>st. (None, st \<lparr> websiteInfo := jsOr websiteJson (JObj []) \<rparr>))
                  (thenDo hideLoading
                  (thenDo showMainContent
                  (thenDo initializeInterface
                          (renderWords lower)))))))))))) st1)"
proof -
  let ?f = "\<lambda>url. fetchWithTimeout network url 10000"
  obtain ta ra tb rb tc rc where s: "?f (u ''data/lexicon.json'') = Settles ta ra"
    "?f (u ''data/categories.json'') = Settles tb rb" "?f (u ''data/website.json'') = Settles tc rc"
    using fetchWithTimeout_settles [of network _ 10000] by metis
  show ?thesis
  proof (cases "isl ra \<or> isl rb \<or> isl rc")
    case True
    from promiseAll_rejected [OF s this] obtain t e where
      "promiseAll [?f (u ''data/lexicon.json''), ?f (u ''data/categories.json''), ?f (u ''data/website.json'')]
         = Settles t (Inl e)"
      by blast
    then show ?thesis
      by (simp add: loadData_try_def thenAwait_None [of showLoading st st1, OF assms(1)])
  next
    case False
    then obtain r1 r2 r3 where r: "ra = Inr r1" "rb = Inr r2" "rc = Inr r3"
      by (cases ra; cases rb; cases rc) auto
    have n: "network (u ''data/lexicon.json'') = Settles ta (Inr r1)"
      "network (u ''data/categories.json'') = Settles tb (Inr r2)"
      "network (u ''data/website.json'') = Settles tc (Inr r3)"
      using s fetchWithTimeout_answers [of network] unfolding r by blast+
    have "loadData_try lower network st
                 = await (json r1) (\<lambda>lexiconJson.
                   await (json r2) (\<lambda>categoriesJson.
                   await (json r3) (\<lambda>websiteJson.
                   finish
                  (attempt (getProp lexiconJson (u ''terms'')) (\<lambda>terms.
                   thenDo (\<lambda>st. (None, st \<lparr> lexiconData := jsOr terms (JArr []) \<rparr>))
                  (attempt (getProp categoriesJson (u ''categories'')) (\<lambda>categories.
                   thenDo (\<lambda>st. (None, st \<lparr> categoriesData := jsOr categories (JObj []) \<rparr>))
                  (thenDo (\<lambda>st. (None, st \<lparr> websiteInfo := jsOr websiteJson (JObj []) \<rparr>))
                  (thenDo hideLoading
                  (thenDo showMainContent
                  (thenDo initializeInterface
                          (renderWords lower)))))))))))) st1"
      unfolding loadData_try_def s r
      by (simp add: thenAwait_None [of showLoading st st1, OF assms(1)])
    with n show ?thesis by blast
  qed
qed

text \<open>
  With a failing resource the \<open>try\<close> block ends in an exception or is suspended, in the
  state that \<open>showLoading\<close> left; it ends in an exception when a request fails or the
  first body that is no document is a body that fails.
\<close>

lemma loadData_try_fails:
  assumes "showLoading st = (None, st1)"
    and "resourceFails_spec (network (u ''data/lexicon.json''))
         \<or> resourceFails_spec (network (u ''data/categories.json''))
         \<or> resourceFails_spec (network (u ''data/website.json''))"
  shows "(loadData_try lower network st = (Suspended, st1)
          \<or> (\<exists>e. loadData_try lower network st = (Finished (Some e), st1)))
         \<and> (requestFails_spec (network (u ''data/lexicon.json''))
            \<or> requestFails_spec (network (u ''data/categories.json''))
            \<or> requestFails_spec (network (u ''data/website.json''))
            \<or> bodyFails_spec (network (u ''data/lexicon.json''))
            \<or> (\<not> bodyStalls_spec (network (u ''data/lexicon.json''))
                \<and> bodyFails_spec (network (u ''data/categories.json'')))
            \<or> (\<not> bodyStalls_spec (network (u ''data/lexicon.json''))
                \<and> \<not> bodyStalls_spec (network (u ''data/categories.json''))
                \<and> bodyFails_spec (network (u ''data/website.json'')))
            \<longrightarrow> (\<exists>e. loadData_try lower network st = (Finished (Some e), st1)))"
proof (cases "requestFails_spec (network (u ''data/lexicon.json''))
         \<or> requestFails_spec (network (u ''data/categories.json''))
         \<or> requestFails_spec (network (u ''data/website.json''))")
  case True
  from loadData_try_rejected [OF assms(1) True, of lower] show ?thesis
    by blast
next
  case False
  then have nf: "\<not> requestFails_spec (network (u ''data/lexicon.json''))"
    "\<not> requestFails_spec (network (u ''data/categories.json''))"
    "\<not> requestFails_spec (network (u ''data/website.json''))"
    by simp_all
  from loadData_try_answered [OF assms(1) nf, of lower]
  show ?thesis
  proof (elim disjE exE conjE)
    fix e
    assume "loadData_try lower network st = (Finished (Some e), st1)"
    then show ?thesis by blast
  next
    fix ta r1 tb r2 tc r3
    assume n: "network (u ''data/lexicon.json'') = Settles ta (Inr r1)"
      "network (u ''data/categories.json'') = Settles tb (Inr r2)"
      "network (u ''data/website.json'') = Settles tc (Inr r3)"
    assume t: "loadData_try lower network st
                 = await (json r1) (\<lambda>lexiconJson.
                   await (json r2) (\<lambda>categoriesJson.
                   await (json r3) (\<lambda>websiteJson.
                   finish
                  (attempt (getProp lexiconJson (u ''terms'')) (\<lambda>terms.
                   thenDo (\<lambda>st. (None, st \<lparr> lexiconData := jsOr terms (JArr []) \<rparr>))
                  (attempt (getProp categoriesJson (u ''categories'')) (\<lambda>categories.
                   thenDo (\<lambda>st. (None, st \<lparr> categoriesData := jsOr categories (JObj []) \<rparr>))
                  (thenDo (\<lambda>st. (None, st \<lparr> websiteInfo := jsOr websiteJson (JObj []) \<rparr>))
                  (thenDo hideLoading
                  (thenDo showMainContent
                  (thenDo initializeInterface
                          (renderWords lower)))))))))))) st1"
    have b: "bodyFails_spec (network (u ''data/lexicon.json'')) \<longleftrightarrow> (\<exists>t e. json r1 = Settles t (Inl e))"
      "bodyFails_spec (network (u ''data/categories.json'')) \<longleftrightarrow> (\<exists>t e. json r2 = Settles t (Inl e))"
      "bodyFails_spec (network (u ''data/website.json'')) \<longleftrightarrow> (\<exists>t e. json r3 = Settles t (Inl e))"
      "bodyStalls_spec (network (u ''data/lexicon.json'')) \<longleftrightarrow> json r1 = Pending"
      "bodyStalls_spec (network (u ''data/categories.json'')) \<longleftrightarrow> json r2 = Pending"
      using nf by (auto simp: bodyFails_spec_def bodyStalls_spec_def n split: promise.splits sum.splits)
    from assms(2) nf have f: "(\<exists>t e. json r1 = Settles t (Inl e)) \<or> (\<exists>t e. json r2 = Settles t (Inl e))
        \<or> (\<exists>t e. json r3 = Settles t (Inl e))"
      by (simp add: resourceFails_spec_def b)
    consider
      (s1) "json r1 = Pending"
    | (e1) t e where "json r1 = Settles t (Inl e)"
    | (s2) t1 v1 where "json r1 = Settles t1 (Inr v1)" "json r2 = Pending"
    | (e2) t1 v1 t e where "json r1 = Settles t1 (Inr v1)" "json r2 = Settles t (Inl e)"
    | (s3) t1 v1 t2 v2 where "json r1 = Settles t1 (Inr v1)" "json r2 = Settles t2 (Inr v2)"
        "json r3 = Pending"
    | (e3) t1 v1 t2 v2 t e where "json r1 = Settles t1 (Inr v1)" "json r2 = Settles t2 (Inr v2)"
        "json r3 = Settles t (Inl e)"
    | (d) t1 v1 t2 v2 t3 v3 where "json r1 = Settles t1 (Inr v1)" "json r2 = Settles t2 (Inr v2)"
        "json r3 = Settles t3 (Inr v3)"
    proof (cases "json r1")
      case Pending
      then show ?thesis by (rule that(1))
    next
      case A: (Settles t1 x1)
      show ?thesis
      proof (cases x1)
        case (Inl e)
        with A show ?thesis by (intro that(2)) simp
      next
        case V1: (Inr v1)
        show ?thesis
        proof (cases "json r2")
          case Pending
          with A V1 show ?thesis by (intro that(3)) simp_all
        next
          case B: (Settles t2 x2)
          show ?thesis
          proof (cases x2)
            case (Inl e)
            with A V1 B show ?thesis by (intro that(4)) simp_all
          next
            case V2: (Inr v2)
            show ?thesis
            proof (cases "json r3")
              case Pending
              with A V1 B V2 show ?thesis by (intro that(5)) simp_all
            next
              case C: (Settles t3 x3)
              show ?thesis
              proof (cases x3)
                case (Inl e)
                with A V1 B V2 C show ?thesis by (intro that(6)) simp_all
              next
                case (Inr v3)
                with A V1 B V2 C show ?thesis by (intro that(7)) simp_all
              qed
            qed
          qed
        qed
      qed
    qed
    then show ?thesis
    proof cases
      case s1
      then show ?thesis unfolding t b using nf by simp
    next
      case e1
      then show ?thesis unfolding t b using nf by simp
    next
      case s2
      then show ?thesis unfolding t b using nf by simp
    next
      case e2
      then show ?thesis unfolding t b using nf by simp
    next
      case s3
      then show ?thesis unfolding t b using nf by simp
    next
      case e3
      then show ?thesis unfolding t b using nf by simp
    next
      case d
      with f show ?thesis by simp
    qed
  qed
qed

text \<open>
  C9. For a term collection that is a list, the value handed to the serializer is the
  object with \<open>metadata\<close> (export date, number of terms, version, exporter), \<open>terms\<close> and
  \<open>categories\<close>, the last two being the loaded data as they are. When the serializer
  and the download succeed, the export is the download of the serialized text under the
  dated file name; when either throws, it is the alert. In every case the state it
  returns is the state it was given.
\<close>

theorem exportJSON_structure_and_frame:
  assumes "lexiconData st = JArr ws" and "\<not> nullish (websiteInfo st)"
  shows "\<exists>version d.
           version = jsOr (if nullish (readProp (websiteInfo st) (u ''project'')) then JUndefined
                           else readProp (readProp (websiteInfo st) (u ''project'')) (u ''version''))
                          (JStr (u ''1.0.0''))
           \<and> truthy version
           \<and> d = JObj [(u ''metadata'',
                         JObj [(u ''exportDate'', JStr (exportClock env)),
                               (u ''totalTerms'', JNum (int (length ws))),
                               (u ''version'', version),
                               (u ''exportedBy'', JStr (u ''Domra Tech Lexicon''))]),
                       (u ''terms'', lexiconData st),
                       (u ''categories'', categoriesData st)]
           \<and> dataToExport (exportClock env) st = Inr d
           \<and> fst (exportJSON env st)
               = (case stringify env d of
                    Inl e \<Rightarrow> Alerted (u ''Error exporting data. Please try again.'')
                  | Inr dataStr \<Rightarrow>
                      (case download env (u ''domra-tech-lexicon-''
                                           @ getCurrentDateString (fileClock env) @ u ''.json'') dataStr of
                         Some e \<Rightarrow> Alerted (u ''Error exporting data. Please try again.'')
                       | None \<Rightarrow>
                           Downloaded (u ''domra-tech-lexicon-''
                                         @ getCurrentDateString (fileClock env) @ u ''.json'') dataStr))
           \<and> snd (exportJSON env st) = st"
proof -
  define version where
    "version = jsOr (if nullish (readProp (websiteInfo st) (u ''project'')) then JUndefined
                     else readProp (readProp (websiteInfo st) (u ''project'')) (u ''version''))
                    (JStr (u ''1.0.0''))"
  define d where
    "d = JObj [(u ''metadata'',
                JObj [(u ''exportDate'', JStr (exportClock env)),
                      (u ''totalTerms'', JNum (int (length ws))),
                      (u ''version'', version),
                      (u ''exportedBy'', JStr (u ''Domra Tech Lexicon''))]),
              (u ''terms'', lexiconData st),
              (u ''categories'', categoriesData st)]"
  have t: "truthy version"
    by (simp add: version_def jsOr_def u_def)
  have e: "dataToExport (exportClock env) st = Inr d"
    using assms
    by (simp add: dataToExport_def getProp_def nullish_def Let_def d_def version_def)
  have f: "fst (exportJSON env st)
               = (case stringify env d of
                    Inl e \<Rightarrow> Alerted (u ''Error exporting data. Please try again.'')
                  | Inr dataStr \<Rightarrow>
                      (case download env (u ''domra-tech-lexicon-''
                                           @ getCurrentDateString (fileClock env) @ u ''.json'') dataStr of
                         Some e \<Rightarrow> Alerted (u ''Error exporting data. Please try again.'')
                       | None \<Rightarrow>
                           Downloaded (u ''domra-tech-lexicon-''
                                         @ getCurrentDateString (fileClock env) @ u ''.json'') dataStr))"
    by (simp add: exportJSON_def e Let_def split: sum.splits option.splits)
  have g: "snd (exportJSON env st) = st"
    by (simp add: exportJSON_def split: sum.splits)
  from version_def t d_def e f g show ?thesis
    by blast
qed

theorem exportJSON_structure_and_frame_witness:
  "dataToExport (exportClock sampleBrowser) (scenario (u ''all'') (u ''sched''))
     = Inr (JObj [(u ''metadata'',
                    JObj [(u ''exportDate'', JStr (u ''2024-05-01T23:59:59.999Z'')),
                          (u ''totalTerms'', JNum 2),
                          (u ''version'', JStr (u ''1.0.0'')),
                          (u ''exportedBy'', JStr (u ''Domra Tech Lexicon''))]),
                  (u ''terms'', JArr [cacheTerm, schedulerTerm]),
                  (u ''categories'', JObj [])])
   \<and> exportJSON sampleBrowser (scenario (u ''all'') (u ''sched''))
       = (Downloaded (u ''domra-tech-lexicon-2024-05-02.json'')
            (compactJson
               (JObj [(u ''metadata'',
                    JObj [(u ''exportDate'', JStr (u ''2024-05-01T23:59:59.999Z'')),
                          (u ''totalTerms'', JNum 2),
                          (u ''version'', JStr (u ''1.0.0'')),
                          (u ''exportedBy'', JStr (u ''Domra Tech Lexicon''))]),
                  (u ''terms'', JArr [cacheTerm, schedulerTerm]),
                  (u ''categories'', JObj [])])),
          scenario (u ''all'') (u ''sched''))
   \<and> exportJSON blockedBrowser (scenario (u ''all'') (u ''sched''))
       = (Alerted (u ''Error exporting data. Please try again.''), scenario (u ''all'') (u ''sched''))
   \<and> exportJSON unserializingBrowser (scenario (u ''all'') (u ''sched''))
       = (Alerted (u ''Error exporting data. Please try again.''), scenario (u ''all'') (u ''sched''))"
proof -
  have h: "lexiconData (scenario (u ''all'') (u ''sched'')) = JArr [cacheTerm, schedulerTerm]"
    "\<not> nullish (websiteInfo (scenario (u ''all'') (u ''sched'')))"
    by (simp_all add: scenario_def initialApp_def nullish_def)
  have v: "jsOr (if nullish (readProp (websiteInfo (scenario (u ''all'') (u ''sched''))) (u ''project''))
                 then JUndefined
                 else readProp (readProp (websiteInfo (scenario (u ''all'') (u ''sched''))) (u ''project''))
                        (u ''version''))
                (JStr (u ''1.0.0'')) = JStr (u ''1.0.0'')"
    by (simp add: scenario_def initialApp_def own_def nullish_def jsOr_def)
  have g: "lexiconData (scenario (u ''all'') (u ''sched'')) = JArr [cacheTerm, schedulerTerm]"
    "categoriesData (scenario (u ''all'') (u ''sched'')) = JObj []"
    "int (length [cacheTerm, schedulerTerm]) = 2"
    by (simp_all add: scenario_def initialApp_def)
  have c: "exportClock sampleBrowser = u ''2024-05-01T23:59:59.999Z''"
    "exportClock blockedBrowser = u ''2024-05-01T23:59:59.999Z''"
    "exportClock unserializingBrowser = u ''2024-05-01T23:59:59.999Z''"
    "u ''domra-tech-lexicon-'' @ getCurrentDateString (fileClock sampleBrowser) @ u ''.json''
       = u ''domra-tech-lexicon-2024-05-02.json''"
    by (simp_all add: sampleBrowser_def blockedBrowser_def unserializingBrowser_def
        getCurrentDateString_def u_def)
  have s: "stringify sampleBrowser x = Inr (compactJson x)"
    "stringify blockedBrowser x = Inr (compactJson x)"
    "download sampleBrowser n y = None" "download blockedBrowser n y = Some TypeError"
    "stringify unserializingBrowser x = Inl TypeError" for x n y
    by (simp_all add: sampleBrowser_def blockedBrowser_def unserializingBrowser_def)
  have p: "x = (fst x, snd x)" for x :: "export_effect \<times> app"
    by simp
  from exportJSON_structure_and_frame [OF h, of sampleBrowser]
  have 1: "dataToExport (exportClock sampleBrowser) (scenario (u ''all'') (u ''sched''))
     = Inr (JObj [(u ''metadata'',
                    JObj [(u ''exportDate'', JStr (u ''2024-05-01T23:59:59.999Z'')),
                          (u ''totalTerms'', JNum 2),
                          (u ''version'', JStr (u ''1.0.0'')),
                          (u ''exportedBy'', JStr (u ''Domra Tech Lexicon''))]),
                  (u ''terms'', JArr [cacheTerm, schedulerTerm]),
                  (u ''categories'', JObj [])])"
    and 2: "fst (exportJSON sampleBrowser (scenario (u ''all'') (u ''sched'')))
       = Downloaded (u ''domra-tech-lexicon-2024-05-02.json'')
            (compactJson
               (JObj [(u ''metadata'',
                    JObj [(u ''exportDate'', JStr (u ''2024-05-01T23:59:59.999Z'')),
                          (u ''totalTerms'', JNum 2),
                          (u ''version'', JStr (u ''1.0.0'')),
                          (u ''exportedBy'', JStr (u ''Domra Tech Lexicon''))]),
                  (u ''terms'', JArr [cacheTerm, schedulerTerm]),
                  (u ''categories'', JObj [])]))"
    and 3: "snd (exportJSON sampleBrowser (scenario (u ''all'') (u ''sched''))) = scenario (u ''all'') (u ''sched'')"
    unfolding v g c s
    by simp_all
  from exportJSON_structure_and_frame [OF h, of blockedBrowser]
  have 4: "fst (exportJSON blockedBrowser (scenario (u ''all'') (u ''sched'')))
       = Alerted (u ''Error exporting data. Please try again.'')"
    and 5: "snd (exportJSON blockedBrowser (scenario (u ''all'') (u ''sched''))) = scenario (u ''all'') (u ''sched'')"
    unfolding s
    by simp_all
  from exportJSON_structure_and_frame [OF h, of unserializingBrowser]
  have 6: "fst (exportJSON unserializingBrowser (scenario (u ''all'') (u ''sched'')))
       = Alerted (u ''Error exporting data. Please try again.'')"
    and 7: "snd (exportJSON unserializingBrowser (scenario (u ''all'') (u ''sched''))) = scenario (u ''all'') (u ''sched'')"
    unfolding s
    by simp_all
  show ?thesis
    using 1 p [of "exportJSON sampleBrowser (scenario (u ''all'') (u ''sched''))"]
      p [of "exportJSON blockedBrowser (scenario (u ''all'') (u ''sched''))"]
      p [of "exportJSON unserializingBrowser (scenario (u ''all'') (u ''sched''))"]
    unfolding 2 3 4 5 6 7
    by simp
qed

section \<open>A successful load\<close>

lemma returns_Inr [simp]: "returns (Inr v)"
  by (simp add: returns_def)

lemma returns_lit [simp]: "returns (lit s)"
  by (simp add: lit_def)

lemma returns_sequence: "(\<forall>m\<in>set ms. returns m) \<Longrightarrow> returns (sequence ms)"
  by (induction ms) (auto simp: returns_def)

lemma returns_template: "(\<forall>m\<in>set ms. returns m) \<Longrightarrow> returns (template ms)"
  using returns_sequence [of ms] by (auto simp: template_def returns_def)

lemma returns_toStr_absent_or_string:
  assumes "optString v \<noteq> None"
  shows "returns (toStr (escapeHtml (jsOr v (JStr d))))" and "returns (toStr (jsOr v (JStr d)))"
  using assms
  by (cases v; simp add: optString_def jsOr_def escapeHtml_def split: if_splits)+

lemma returns_renderReference:
  assumes "optString v \<noteq> None"
  shows "returns (renderReference v)"
proof (cases "truthy v")
  case False
  then show ?thesis by (simp add: renderReference_def)
next
  case True
  with assms obtain s where "v = JStr s" by (cases v) (auto simp: optString_def)
  then show ?thesis
    by (auto simp: renderReference_def escapeHtml_def intro!: returns_template)
qed

lemma returns_renderTags:
  assumes "optTags v = Some ot"
  shows "returns (renderTags v)"
proof (cases v)
  case (JArr ts)
  show ?thesis
  proof (cases "ts = []")
    case True
    then show ?thesis by (simp add: renderTags_def JArr)
  next
    case False
    from assms JArr obtain ss where "those (map asStr ts) = Some ss"
      by (auto simp: optTags_def)
    then have ts: "ts = map JStr ss" by (rule those_asStr)
    have "returns (template (map (\<lambda>tag. template [lit ''<span class=\"tag\">'',
                                               toStr (escapeHtml tag),
                                               lit ''</span>'']) ts))"
      by (rule returns_template) (auto simp: ts escapeHtml_def intro!: returns_template)
    then show ?thesis
      using False by (auto simp: renderTags_def JArr intro!: returns_template)
  qed
qed (simp_all add: renderTags_def)

lemma returns_example:
  assumes "optExample v = Some oe"
  shows "returns (toStr (escapeHtml v))"
  using assms
  by (cases v) (auto simp: optExample_def nullish_def escapeHtml_def split: if_splits)

lemma returns_renderExamples:
  assumes "optExamples v = Some ox"
  shows "returns (renderExamples v)"
proof (cases "truthy v")
  case False
  then show ?thesis by (simp add: renderExamples_def)
next
  case True
  with assms obtain oe kx where
    x: "optExample (readProp v (u ''english'')) = Some oe"
    "optExample (readProp v (u ''khmer'')) = Some kx"
    by (auto simp: optExamples_def split: Option.bind_splits)
  show ?thesis
    by (auto simp: renderExamples_def returns_example [OF x(1)] returns_example [OF x(2)]
        intro!: returns_template)
qed

lemma returns_toStr_category:
  assumes "c \<noteq> u ''__proto__''"
  shows "returns (andThen (getProp (jsOr (inherited c)
                     (JObj [(u ''icon'', JStr i), (u ''name'', JObj [(u ''english'', JStr c)])]))
                   (u ''icon'')) toStr)"
    and "returns (andThen (getProp (jsOr (inherited c)
                     (JObj [(u ''icon'', JStr i), (u ''name'', JObj [(u ''english'', JStr c)])]))
                   (u ''name'')) (\<lambda>name. andThen (getProp name (u ''english'')) toStr))"
  using assms
  by (auto simp: inherited_def jsOr_def getProp_def nullish_def own_def split: option.splits)

lemma createWordCard_returns:
  assumes "renderableTerm w"
  shows "returns (createWordCard (JObj []) w)"
proof -
  from assms obtain t where t: "viewTerm w = Some t"
    by (auto simp: renderableTerm_def split: option.splits)
  from assms t obtain c where c: "categoryKey t = JStr c" "c \<noteq> u ''__proto__''"
    by (cases "categoryKey t") (auto simp: renderableTerm_def)
  from assms t have o: "optString (readProp w (u ''dateAdded'')) \<noteq> None"
    "optString (readProp w (u ''reference'')) \<noteq> None"
    by (auto simp: renderableTerm_def)
  from t obtain fs where w: "w = JObj fs"
    and e: "own fs (u ''english'') = JStr (englishName t)"
    and k: "own fs (u ''khmer'') = JStr (khmerName t)"
    and cat: "own fs (u ''category'') = categoryKey t"
    and d: "optString (own fs (u ''description'')) = Some (description t)"
    and tg: "optTags (own fs (u ''tags'')) = Some (tags t)"
    and x: "optExamples (own fs (u ''examples'')) = Some (examples t)"
    by (rule viewTerm_fields)
  have d': "optString (own fs (u ''description'')) \<noteq> None" using d by simp
  have g: "getProp w (u ''category'') = Inr (JStr c)"
    by (simp add: w getProp_def nullish_def cat c(1))
  have l: "\<not> nullish (JObj [])" "lookupKey (JObj []) c = inherited c"
    by (simp_all add: nullish_def lookupKey_def)
  have p: "returns (toStr (escapeHtml (readProp w (u ''english''))))"
    "returns (toStr (escapeHtml (readProp w (u ''khmer''))))"
    by (simp_all add: w e k escapeHtml_def)
  have q: "returns (toStr (escapeHtml (jsOr (readProp w (u ''description''))
                                    (JStr (u ''No description available'')))))"
    "returns (renderExamples (readProp w (u ''examples'')))"
    "returns (renderTags (readProp w (u ''tags'')))"
    using returns_toStr_absent_or_string(1) [OF d'] returns_renderExamples [OF x]
      returns_renderTags [OF tg]
    by (simp_all add: w)
  show ?thesis
    unfolding createWordCard_def Let_def
    by (simp only: g andThen_Inr toStr.simps l if_False)
      (rule returns_template,
        simp add: p q returns_toStr_category [OF c(2)] returns_toStr_absent_or_string(2) [OF o(1)]
          returns_renderReference [OF o(2)])
qed

lemma renderWordCards_returns:
  assumes "\<forall>w\<in>set ws. renderableTerm w" and "categoriesData st = JObj []"
    and "wordGrid (elements st) = Some g"
  shows "\<exists>html. renderWordCards ws st = (None, st \<lparr> elements := (elements st) \<lparr> wordGrid := Some html \<rparr> \<rparr>)"
proof -
  have "returns (sequence (map (createWordCard (JObj [])) ws))"
    using assms(1) by (intro returns_sequence) (auto simp: createWordCard_returns)
  then show ?thesis
    using assms(2,3) by (auto simp: renderWordCards_def returns_def)
qed

lemma renderableTerm_view: "renderableTerm w \<Longrightarrow> viewTerm w \<noteq> None"
  by (auto simp: renderableTerm_def split: option.splits)

lemma renderWords_returns:
  assumes "lexiconData st = JArr ws" and "\<forall>w\<in>set ws. renderableTerm w"
    and "categoriesData st = JObj []"
    and "wordGrid (elements st) = Some g" and "resultsCount (elements st) = Some rc"
  shows "\<exists>label html. renderWords lower st
           = (None, st \<lparr> elements := (elements st) \<lparr> resultsCount := Some label, wordGrid := Some html \<rparr> \<rparr>)"
proof -
  let ?rs = "filter (visible_spec lower (currentFilter st) (currentSearch st)) ws"
  have f: "filterWords lower st = Inr ?rs"
    using assms(1,2) by (intro filterWords_view) (auto simp: renderableTerm_view)
  let ?st = "st \<lparr> elements := (elements st) \<lparr> resultsCount := Some (showNat (length ?rs) @ u '' terms found'') \<rparr> \<rparr>"
  show ?thesis
  proof (cases "?rs = []")
    case True
    then show ?thesis
      using assms(4,5) by (auto simp: renderWords_def f renderNoResults_def)
  next
    case False
    have "\<forall>w\<in>set ?rs. renderableTerm w" using assms(2) by auto
    from renderWordCards_returns [OF this, of ?st g] assms(3,4)
    obtain html where "renderWordCards ?rs ?st = (None, ?st \<lparr> elements := (elements ?st) \<lparr> wordGrid := Some html \<rparr> \<rparr>)"
      by auto
    then show ?thesis
      using assms(4,5) False by (auto simp: renderWords_def f)
  qed
qed

lemma array_filter_returns: "(\<forall>x\<in>set xs. returns (f x)) \<Longrightarrow> returns (array_filter f xs)"
  by (induction xs) (auto simp: returns_def)

lemma createFilterButton_strings:
  "\<exists>b. createFilterButton key (JStr name) (JStr icon) active = Inr b"
  by (simp add: createFilterButton_def template_def lit_def)

lemma typedCategory_button:
  assumes "typedCategory c"
  shows "\<exists>b. andThen (getProp c (u ''name'')) (\<lambda>name.
              andThen (getProp name (u ''english'')) (\<lambda>english.
              andThen (getProp c (u ''icon'')) (\<lambda>icon.
                createFilterButton key english (jsOr icon (JStr i)) False))) = Inr b"
proof -
  from assms obtain fs ns e where c: "c = JObj fs" "own fs (u ''name'') = JObj ns"
    "own ns (u ''english'') = JStr e" and i: "optString (own fs (u ''icon'')) \<noteq> None"
    apply (cases c; simp add: typedCategory_def)
    subgoal for fs
      apply (cases "own fs (u ''name'')"; simp)
      subgoal for ns
        by (cases "own ns (u ''english'')"; simp)
      done
    done
  from i obtain s where "jsOr (own fs (u ''icon'')) (JStr i) = JStr s"
    by (cases "own fs (u ''icon'')") (auto simp: optString_def jsOr_def split: if_splits)
  then show ?thesis
    using createFilterButton_strings [of key e s False]
    by (simp add: c getProp_def nullish_def)
qed

lemma appendButton_Some:
  "filterButtons (elements st) = Some bs \<Longrightarrow>
   appendButton b st = (None, st \<lparr> elements := (elements st) \<lparr> filterButtons := Some (bs @ [b]) \<rparr> \<rparr>)"
  by (simp add: appendButton_def)

lemma forEach_buttons:
  assumes "list_all (\<lambda>(k, c). typedCategory c) cs" and "filterButtons (elements st) = Some bs"
  shows "\<exists>bs'. forEach (\<lambda>(categoryKey, category).
                     attempt (andThen (getProp category (u ''name'')) (\<lambda>name.
                              andThen (getProp name (u ''english'')) (\<lambda>english.
                              andThen (getProp category (u ''icon'')) (\<lambda>icon.
                                createFilterButton categoryKey english
                                  (jsOr icon (JStr i)) False))))
                       appendButton) cs st
               = (None, st \<lparr> elements := (elements st) \<lparr> filterButtons := Some bs' \<rparr> \<rparr>)"
  using assms
proof (induction cs arbitrary: st bs)
  case Nil
  then show ?case by (auto intro: exI [of _ bs])
next
  case (Cons kc cs)
  obtain k c where kc: "kc = (k, c)" by (cases kc)
  from Cons.prems kc have "typedCategory c" by simp
  from typedCategory_button [OF this, of k i] obtain b where
    b: "andThen (getProp c (u ''name'')) (\<lambda>name.
              andThen (getProp name (u ''english'')) (\<lambda>english.
              andThen (getProp c (u ''icon'')) (\<lambda>icon.
                createFilterButton k english (jsOr icon (JStr i)) False))) = Inr b"
    by blast
  let ?st = "st \<lparr> elements := (elements st) \<lparr> filterButtons := Some (bs @ [b]) \<rparr> \<rparr>"
  from Cons.prems have "list_all (\<lambda>(k, c). typedCategory c) cs" by simp
  from Cons.IH [OF this, of ?st "bs @ [b]"] obtain bs' where
    "forEach (\<lambda>(categoryKey, category).
                     attempt (andThen (getProp category (u ''name'')) (\<lambda>name.
                              andThen (getProp name (u ''english'')) (\<lambda>english.
                              andThen (getProp category (u ''icon'')) (\<lambda>icon.
                                createFilterButton categoryKey english
                                  (jsOr icon (JStr i)) False))))
                       appendButton) cs ?st
               = (None, ?st \<lparr> elements := (elements ?st) \<lparr> filterButtons := Some bs' \<rparr> \<rparr>)"
    by auto
  then show ?case
    using Cons.prems(2) by (auto simp: kc b thenDo_def appendButton_Some intro!: exI [of _ bs'])
qed

lemma populateCategoryButtons_returns:
  assumes "typedCategories (categoriesData st)"
  shows "\<exists>fb. populateCategoryButtons st = (None, st \<lparr> elements := (elements st) \<lparr> filterButtons := fb \<rparr> \<rparr>)"
proof (cases "filterButtons (elements st)")
  case None
  then show ?thesis
    by (auto simp: populateCategoryButtons_def intro!: exI [of _ None])
next
  case (Some bs)
  from assms obtain cs where cs: "categoriesData st = JObj cs" "list_all (\<lambda>(k, c). typedCategory c) cs"
    by (cases "categoriesData st") (auto simp: typedCategories_def)
  obtain b where b: "createFilterButton (u ''all'') (JStr (u ''All Categories''))
                           (JStr [0xD83D, 0xDCDA]) True = Inr b"
    using createFilterButton_strings by blast
  let ?st = "st \<lparr> elements := (elements st) \<lparr> filterButtons := Some [b] \<rparr> \<rparr>"
  from forEach_buttons [OF cs(2), of ?st "[b]" "[0xD83D, 0xDCDD]"] obtain bs' where
    "forEach (\<lambda>(categoryKey, category).
                     attempt (andThen (getProp category (u ''name'')) (\<lambda>name.
                              andThen (getProp name (u ''english'')) (\<lambda>english.
                              andThen (getProp category (u ''icon'')) (\<lambda>icon.
                                createFilterButton categoryKey english
                                  (jsOr icon (JStr [0xD83D, 0xDCDD])) False))))
                       appendButton) cs ?st
               = (None, ?st \<lparr> elements := (elements ?st) \<lparr> filterButtons := Some bs' \<rparr> \<rparr>)"
    by auto
  then show ?thesis
    using Some
    by (auto simp: populateCategoryButtons_def thenDo_def b appendButton_Some cs(1) entries_def
        intro!: exI [of _ "Some bs'"])
qed

lemma statCard_number: "returns (statCard (JNum n) label)"
  by (auto simp: statCard_def intro!: returns_template)

lemma updateStats_returns:
  assumes "lexiconData st = JArr ws" and "\<forall>w\<in>set ws. \<not> nullish w"
    and "categoriesData st = JObj cs"
  shows "\<exists>sc. updateStats st = (None, st \<lparr> elements := (elements st) \<lparr> statsContainer := sc \<rparr> \<rparr>)"
proof (cases "statsContainer (elements st)")
  case None
  then show ?thesis
    by (auto simp: updateStats_def intro!: exI [of _ None])
next
  case (Some old)
  have "returns (sequence (map (\<lambda>t. andThen (getProp t (u ''contributors'')) (\<lambda>c.
                   Inr (case jsOr c (JArr []) of JArr ys \<Rightarrow> ys | v \<Rightarrow> [v]))) ws))"
    using assms(2) by (intro returns_sequence) (auto simp: getProp_def)
  then obtain yss where y: "sequence (map (\<lambda>t. andThen (getProp t (u ''contributors'')) (\<lambda>c.
                   Inr (case jsOr c (JArr []) of JArr ys \<Rightarrow> ys | v \<Rightarrow> [v]))) ws) = Inr yss"
    by (auto simp: returns_def)
  have "returns (array_filter (\<lambda>t. andThen (getProp t (u ''status'')) (\<lambda>s.
                   Inr (JBool (s = JStr (u ''verified''))))) ws)"
    using assms(2) by (intro array_filter_returns) (auto simp: getProp_def)
  then obtain vs where v: "array_filter (\<lambda>t. andThen (getProp t (u ''status'')) (\<lambda>s.
                   Inr (JBool (s = JStr (u ''verified''))))) ws = Inr vs"
    by (auto simp: returns_def)
  have "returns (template
             [statCard (JNum (int (length ws))) ''Technical Terms'',
              statCard (JNum (int (length cs))) ''Categories'',
              statCard (JNum (int (setSize (concat yss)))) ''Contributors'',
              statCard (JNum (int (length vs))) ''Verified Terms''])"
    by (intro returns_template) (simp add: statCard_number)
  then obtain html where "template
             [statCard (JNum (int (length ws))) ''Technical Terms'',
              statCard (JNum (int (length cs))) ''Categories'',
              statCard (JNum (int (setSize (concat yss)))) ''Contributors'',
              statCard (JNum (int (length vs))) ''Verified Terms''] = Inr html"
    by (auto simp: returns_def)
  moreover have "getProp (lexiconData st) (u ''length'') = Inr (JNum (int (length ws)))"
    by (simp add: assms(1) getProp_def nullish_def)
  moreover have "entries (categoriesData st) = Inr cs"
    by (simp add: assms(3) entries_def)
  ultimately show ?thesis
    using Some
    by (auto simp: updateStats_def assms(1) y v intro!: exI [of _ "Some html"])
qed

lemma initializeInterface_returns:
  assumes "lexiconData st = JArr ws" and "\<forall>w\<in>set ws. \<not> nullish w"
    and "typedCategories (categoriesData st)"
  shows "\<exists>fb sc ls. initializeInterface st
           = (None, st \<lparr> elements := (elements st) \<lparr> filterButtons := fb, statsContainer := sc \<rparr>,
                          listeners := ls \<rparr>)"
proof -
  from assms(3) obtain cs where cs: "categoriesData st = JObj cs"
    by (cases "categoriesData st") (auto simp: typedCategories_def)
  from populateCategoryButtons_returns [OF assms(3)] obtain fb where
    p: "populateCategoryButtons st = (None, st \<lparr> elements := (elements st) \<lparr> filterButtons := fb \<rparr> \<rparr>)"
    by blast
  let ?st = "st \<lparr> elements := (elements st) \<lparr> filterButtons := fb \<rparr> \<rparr>"
  from updateStats_returns [of ?st ws cs] assms(1,2) cs obtain sc where
    s: "updateStats ?st = (None, ?st \<lparr> elements := (elements ?st) \<lparr> statsContainer := sc \<rparr> \<rparr>)"
    by auto
  show ?thesis
    by (auto simp: initializeInterface_def thenDo_def p s setupEventListeners_def)
qed

lemma delivers_spec_iff:
  "delivers_spec net doc \<longleftrightarrow>
     (\<exists>t r t'. net = Settles t (Inr r) \<and> t < 10000 \<and> 200 \<le> status r \<and> status r \<le> 299
                \<and> json r = Settles t' (Inr doc))"
proof (cases net)
  case Pending
  then show ?thesis by (simp add: delivers_spec_def)
next
  case N: (Settles t x)
  show ?thesis
  proof (cases x)
    case (Inl e)
    with N show ?thesis by (simp add: delivers_spec_def)
  next
    case R: (Inr r)
    show ?thesis
    proof (cases "json r")
      case Pending
      with N R show ?thesis by (simp add: delivers_spec_def)
    next
      case J: (Settles t' y)
      with N R show ?thesis by (cases y) (auto simp: delivers_spec_def)
    qed
  qed
qed

lemma fetchWithTimeout_delivers:
  assumes "delivers_spec (network url) doc"
  shows "\<exists>t r t'. fetchWithTimeout network url 10000 = Settles t (Inr r) \<and> json r = Settles t' (Inr doc)"
  using assms
  by (auto simp: delivers_spec_iff fetchWithTimeout_def ok_def)

lemma loadData_try_delivered:
  assumes "showLoading st = (None, st1)"
    and "delivers_spec (network (u ''data/lexicon.json'')) lexiconDoc"
    and "delivers_spec (network (u ''data/categories.json'')) categoriesDoc"
    and "delivers_spec (network (u ''data/website.json'')) websiteDoc"
    and "\<not> nullish lexiconDoc" and "\<not> nullish categoriesDoc"
  shows "loadData_try lower network st
         = finish (thenDo hideLoading (thenDo showMainContent (thenDo initializeInterface (renderWords lower))))
             (st1 \<lparr> lexiconData := jsOr (readProp lexiconDoc (u ''terms'')) (JArr []),
                    categoriesData := jsOr (readProp categoriesDoc (u ''categories'')) (JObj []),
                    websiteInfo := jsOr websiteDoc (JObj []) \<rparr>)"
proof -
  from fetchWithTimeout_delivers [of network "u ''data/lexicon.json''", OF assms(2)] obtain t1 r1 b1 where
    r1: "fetchWithTimeout network (u ''data/lexicon.json'') 10000 = Settles t1 (Inr r1)"
      "json r1 = Settles b1 (Inr lexiconDoc)"
    by blast
  from fetchWithTimeout_delivers [of network "u ''data/categories.json''", OF assms(3)] obtain t2 r2 b2 where
    r2: "fetchWithTimeout network (u ''data/categories.json'') 10000 = Settles t2 (Inr r2)"
      "json r2 = Settles b2 (Inr categoriesDoc)"
    by blast
  from fetchWithTimeout_delivers [of network "u ''data/website.json''", OF assms(4)] obtain t3 r3 b3 where
    r3: "fetchWithTimeout network (u ''data/website.json'') 10000 = Settles t3 (Inr r3)"
      "json r3 = Settles b3 (Inr websiteDoc)"
    by blast
  have g: "getProp lexiconDoc key = Inr (readProp lexiconDoc key)"
    "getProp categoriesDoc key = Inr (readProp categoriesDoc key)" for key
    using assms(5,6) by (simp_all add: getProp_def)
  have p: "promiseAll [Settles t1 (Inr r1), Settles t2 (Inr r2), Settles t3 (Inr r3)]
           = Settles (max t1 (max t2 (max t3 0))) (Inr [r1, r2, r3])"
    by simp
  show ?thesis
    unfolding loadData_try_def
    by (simp only: thenAwait_None [of showLoading st st1, OF assms(1)] r1 r2 r3 p await_fulfilled
        list.case attempt_Inr g)
      (simp add: thenDo_def finish_def)
qed

lemma startInterface:
  assumes "loading (elements st) = Some l" and "mainContent (elements st) = Some (d, cl)"
    and "lexiconData st = JArr ws" and "\<forall>w\<in>set ws. \<not> nullish w"
    and "typedCategories (categoriesData st)"
  shows "\<exists>cl' fb sc ls.
           thenDo hideLoading (thenDo showMainContent (thenDo initializeInterface (renderWords lower))) st
           = renderWords lower
               (st \<lparr> elements := (elements st) \<lparr> loading := Some (u ''none''),
                                       mainContent := Some (u ''block'', cl'),
                                       filterButtons := fb, statsContainer := sc \<rparr>,
                      listeners := ls \<rparr>)"
proof -
  define cl' where "cl' = (if u ''fade-in'' \<in> set cl then cl else cl @ [u ''fade-in''])"
  define st1 where "st1 = st \<lparr> elements := (elements st) \<lparr> loading := Some (u ''none'') \<rparr> \<rparr>"
  define st2 where "st2 = st1 \<lparr> elements := (elements st1) \<lparr> mainContent := Some (u ''block'', cl') \<rparr> \<rparr>"
  have h: "hideLoading st = (None, st1)"
    using assms(1) by (simp add: hideLoading_def setLoadingDisplay_def st1_def)
  have m: "showMainContent st1 = (None, st2)"
    using assms(2)
    by (simp add: showMainContent_def thenDo_def setMainContentDisplay_def addMainContentClass_def
        st1_def st2_def cl'_def)
  have "lexiconData st2 = JArr ws" "typedCategories (categoriesData st2)"
    using assms(3,5) by (simp_all add: st2_def st1_def)
  from initializeInterface_returns [OF this(1) assms(4) this(2)] obtain fb sc ls where
    i: "initializeInterface st2
          = (None, st2 \<lparr> elements := (elements st2) \<lparr> filterButtons := fb, statsContainer := sc \<rparr>,
                           listeners := ls \<rparr>)"
    by auto
  have e: "st2 \<lparr> elements := (elements st2) \<lparr> filterButtons := fb, statsContainer := sc \<rparr>, listeners := ls \<rparr>
           = st \<lparr> elements := (elements st) \<lparr> loading := Some (u ''none''),
                                   mainContent := Some (u ''block'', cl'),
                                   filterButtons := fb, statsContainer := sc \<rparr>,
                  listeners := ls \<rparr>"
    by (simp add: st2_def st1_def)
  have "thenDo hideLoading (thenDo showMainContent (thenDo initializeInterface (renderWords lower))) st
        = renderWords lower
            (st2 \<lparr> elements := (elements st2) \<lparr> filterButtons := fb, statsContainer := sc \<rparr>, listeners := ls \<rparr>)"
    by (simp only: thenDo_None [of hideLoading st st1, OF h]
        thenDo_None [of showMainContent st1 st2, OF m]
        thenDo_None [of initializeInterface st2 _, OF i])
  then show ?thesis
    unfolding e by blast
qed

lemma renderWords_no_terms:
  assumes "lexiconData st = JArr []" and "wordGrid (elements st) = Some g"
    and "resultsCount (elements st) = Some rc"
  shows "renderWords lower st
         = (None, st \<lparr> elements := (elements st) \<lparr> resultsCount := Some (u ''0 terms found''),
                                          wordGrid := Some noResultsHTML \<rparr> \<rparr>)"
proof -
  have "showNat 0 @ u '' terms found'' = u ''0 terms found''"
    by (simp add: showNat_digit u_def)
  then show ?thesis
    using assms by (simp add: renderWords_def filterWords_def renderNoResults_def)
qed

lemma renderableTerm_not_nullish: "renderableTerm w \<Longrightarrow> \<not> nullish w"
  using viewTerm_category(1) [of w] by (auto simp: renderableTerm_def split: option.splits)

lemma loadData_delivered:
  assumes "loading (elements st) = Some l" and "error (elements st) = Some e"
    and "mainContent (elements st) = Some (d, cl)"
    and "delivers_spec (network (u ''data/lexicon.json'')) lexiconDoc"
    and "delivers_spec (network (u ''data/categories.json'')) categoriesDoc"
    and "delivers_spec (network (u ''data/website.json'')) websiteDoc"
    and "\<not> nullish lexiconDoc" and "\<not> nullish categoriesDoc"
    and "jsOr (readProp lexiconDoc (u ''terms'')) (JArr []) = JArr ws" and "\<forall>w\<in>set ws. \<not> nullish w"
    and "typedCategories (jsOr (readProp categoriesDoc (u ''categories'')) (JObj []))"
  shows "\<exists>st3. loadData_try lower network st = finish (renderWords lower) st3
           \<and> lexiconData st3 = JArr ws
           \<and> categoriesData st3 = jsOr (readProp categoriesDoc (u ''categories'')) (JObj [])
           \<and> currentFilter st3 = currentFilter st \<and> currentSearch st3 = currentSearch st
           \<and> wordGrid (elements st3) = wordGrid (elements st)
           \<and> resultsCount (elements st3) = resultsCount (elements st)
           \<and> map_option fst (mainContent (elements st3)) = Some (u ''block'')
           \<and> error (elements st3) = Some (u ''none'')
           \<and> loading (elements st3) = Some (u ''none'')"
proof -
  define st1 where "st1 = st \<lparr> elements := (elements st) \<lparr> loading := Some (u ''block''), error := Some (u ''none''),
                                      mainContent := Some (u ''none'', cl) \<rparr> \<rparr>"
  define st2 where "st2 = st1 \<lparr> lexiconData := jsOr (readProp lexiconDoc (u ''terms'')) (JArr []),
                     categoriesData := jsOr (readProp categoriesDoc (u ''categories'')) (JObj []),
                     websiteInfo := jsOr websiteDoc (JObj []) \<rparr>"
  have s: "showLoading st = (None, st1)"
    unfolding st1_def by (rule showLoading_panels [OF assms(1-3)])
  have t: "loadData_try lower network st
           = finish (thenDo hideLoading (thenDo showMainContent (thenDo initializeInterface (renderWords lower)))) st2"
    unfolding st2_def by (rule loadData_try_delivered [OF s assms(4-8)])
  have p: "loading (elements st2) = Some (u ''block'')" "mainContent (elements st2) = Some (u ''none'', cl)"
    "lexiconData st2 = JArr ws"
    "typedCategories (categoriesData st2)"
    using assms(9,11) by (simp_all add: st2_def st1_def)
  from startInterface [OF p(1,2,3) assms(10) p(4), of lower] obtain cl' fb sc ls where
    i: "thenDo hideLoading (thenDo showMainContent (thenDo initializeInterface (renderWords lower))) st2
           = renderWords lower
               (st2 \<lparr> elements := (elements st2) \<lparr> loading := Some (u ''none''),
                                       mainContent := Some (u ''block'', cl'),
                                       filterButtons := fb, statsContainer := sc \<rparr>,
                      listeners := ls \<rparr>)"
    by blast
  show ?thesis
    by (rule exI [of _ "st2 \<lparr> elements := (elements st2) \<lparr> loading := Some (u ''none''),
                                       mainContent := Some (u ''block'', cl'),
                                       filterButtons := fb, statsContainer := sc \<rparr>,
                      listeners := ls \<rparr>"])
      (simp add: t i p(3) finish_def, simp add: st2_def st1_def)
qed

lemma loadData_renders:
  assumes "loading (elements st) = Some l" and "error (elements st) = Some e"
    and "mainContent (elements st) = Some (d, cl)"
    and "wordGrid (elements st) = Some g" and "resultsCount (elements st) = Some rc"
    and "delivers_spec (network (u ''data/lexicon.json'')) lexiconDoc"
    and "delivers_spec (network (u ''data/categories.json'')) categoriesDoc"
    and "delivers_spec (network (u ''data/website.json'')) websiteDoc"
    and "\<not> nullish lexiconDoc" and "\<not> nullish categoriesDoc"
    and "readProp lexiconDoc (u ''terms'') = JArr ws" and "\<forall>w\<in>set ws. renderableTerm w"
    and "readProp categoriesDoc (u ''categories'') = JUndefined"
  shows "\<exists>st'. loadData lower network st = (Finished None, st')
                  \<and> lexiconData st' = JArr ws
                  \<and> categoriesData st' = JObj []
                  \<and> map_option fst (mainContent (elements st')) = Some (u ''block'')
                  \<and> error (elements st') = Some (u ''none'')
                  \<and> loading (elements st') = Some (u ''none'')"
proof -
  from assms(11) have l: "jsOr (readProp lexiconDoc (u ''terms'')) (JArr []) = JArr ws"
    by (simp add: jsOr_def)
  from assms(13) have c: "jsOr (readProp categoriesDoc (u ''categories'')) (JObj []) = JObj []"
    by (simp add: jsOr_def)
  then have c': "typedCategories (jsOr (readProp categoriesDoc (u ''categories'')) (JObj []))"
    by (simp add: typedCategories_def)
  from assms(12) have n: "\<forall>w\<in>set ws. \<not> nullish w"
    by (auto simp: renderableTerm_not_nullish)
  from loadData_delivered [OF assms(1-3) assms(6-10) l n c', of lower] obtain st3 where
    st3: "loadData_try lower network st = finish (renderWords lower) st3"
      "lexiconData st3 = JArr ws"
      "categoriesData st3 = JObj []"
      "wordGrid (elements st3) = wordGrid (elements st)" "resultsCount (elements st3) = resultsCount (elements st)"
      "map_option fst (mainContent (elements st3)) = Some (u ''block'')"
      "error (elements st3) = Some (u ''none'')" "loading (elements st3) = Some (u ''none'')"
    unfolding c by auto
  from renderWords_returns [OF st3(2) assms(12) st3(3), of g rc lower] st3(4,5) assms(4,5)
  obtain label html where
    r: "renderWords lower st3
          = (None, st3 \<lparr> elements := (elements st3) \<lparr> resultsCount := Some label, wordGrid := Some html \<rparr> \<rparr>)"
    by auto
  show ?thesis
    using st3(2-) by (simp add: loadData_def st3(1) r finish_def)
qed

section \<open>A failing load\<close>




section \<open>A document without its key\<close>




end
